theory Spec2Isabelle
  imports Main "HOL-Library.Sublist" "HOL-Library.List_Lexorder"
begin

section \<open>JavaScript strings\<close>

text \<open>
  A JavaScript string is a sequence of UTF-16 code units. A code unit is modelled as a
  natural number, so that \<open>length\<close> is \<open>.length\<close>, list order is the order
  \<open>Array.prototype.sort\<close> uses on strings, and the characters outside ASCII the source
  writes (the bullet, the dashes, the no-break space) are single elements.
  \<open>js ''abc''\<close> is the literal \<open>'abc'\<close>.
\<close>

type_synonym jsstring = "nat list"

abbreviation (input) js :: "string \<Rightarrow> jsstring" where
  "js s \<equiv> map of_char s"

abbreviation (input) ch :: "char \<Rightarrow> nat" where
  "ch c \<equiv> of_char c"

text \<open>The class \<open>\s\<close> of regular expressions, which is also what \<open>trim\<close> strips:
  WhiteSpace and LineTerminator of ECMAScript.\<close>

definition isWhiteSpace :: "nat \<Rightarrow> bool" where
  "isWhiteSpace c =
     (c = 9 \<or> c = 10 \<or> c = 11 \<or> c = 12 \<or> c = 13 \<or> c = 32 \<or> c = 160 \<or> c = 5760
      \<or> (8192 \<le> c \<and> c \<le> 8202) \<or> c = 8232 \<or> c = 8233 \<or> c = 8239 \<or> c = 8287
      \<or> c = 12288 \<or> c = 65279)"

definition trim :: "jsstring \<Rightarrow> jsstring" where
  "trim s = rev (dropWhile isWhiteSpace (rev (dropWhile isWhiteSpace s)))"

text \<open>Canonicalisation under the \<open>i\<close> flag. Every letter of the patterns below is ASCII,
  and no code unit above 127 is canonicalised to an ASCII one, so only the ASCII letters
  matter.\<close>

definition canon :: "nat \<Rightarrow> nat" where
  "canon c = (if 97 \<le> c \<and> c \<le> 122 then c - 32 else c)"

text \<open>\<open>toLowerCase\<close>. Its results are only ever compared with ASCII names
  (\<open>'toc'\<close>, \<open>'ul'\<close>, \<open>'blockquote'\<close>, ...), or read at index 1 after a first code unit
  \<open>h\<close>. The code units whose lower case is an ASCII letter are \<open>A\<close>--\<open>Z\<close> and the Kelvin
  sign U+212A. Every other code unit is left as it is: its lower case has a code unit
  outside ASCII (for U+0130 it is \<open>i\<close> followed by U+0307), so that a string with it equals
  none of these names and contains \<open>toc\<close> only where the letters of the source do.\<close>

definition lowerUnit :: "nat \<Rightarrow> nat" where
  "lowerUnit c = (if 65 \<le> c \<and> c \<le> 90 then c + 32 else if c = 8490 then 107 else c)"

definition toLowerCase :: "jsstring \<Rightarrow> jsstring" where
  "toLowerCase s = map lowerUnit s"

text \<open>\<open>startsWith\<close>, \<open>endsWith\<close> and \<open>includes\<close> are \<^const>\<open>prefix\<close>,
  \<^const>\<open>suffix\<close> and \<^const>\<open>sublist\<close>.\<close>

definition startsWith :: "jsstring \<Rightarrow> jsstring \<Rightarrow> bool" where
  "startsWith s p = prefix p s"

definition str_includes :: "jsstring \<Rightarrow> jsstring \<Rightarrow> bool" where
  "str_includes s p = sublist p s"


section \<open>Objects used as dictionaries\<close>

text \<open>
  \<open>manifestItems\<close> and \<open>footnotes\<close> are object literals \<open>{}\<close> used as dictionaries from
  strings to strings. Such an object is modelled by its own properties, a map.

  A read \<open>obj[k]\<close> gives the own property \<open>k\<close> if there is one, and otherwise the member
  \<open>k\<close> of \<open>Object.prototype\<close> if there is one: a native function, or for \<open>__proto__\<close> the
  prototype object itself. Such a value is truthy, it has none of the methods of a string,
  and appended to a string it gives its text: \<open>function Object() { [native code] }\<close> for
  \<open>constructor\<close>, the same with the member's name for the other functions (the form in
  which V8 and Hermes print a native function), and \<open>[object Object]\<close> for \<open>__proto__\<close>.

  A write \<open>obj[k] = v\<close> of a string \<open>v\<close> sets the own property \<open>k\<close>, except for
  \<open>k = '__proto__'\<close>: there the inherited setter is called, which ignores a value that is
  not an object, and nothing is stored.
\<close>

type_synonym jsobject = "jsstring \<rightharpoonup> jsstring"

datatype jsval = Undefined | Str jsstring | Inherited jsstring

definition nativeFunction :: "jsstring \<Rightarrow> jsstring" where
  "nativeFunction name = js ''function '' @ name @ js ''() { [native code] }''"

definition objectPrototype :: "jsstring \<Rightarrow> jsstring option" where
  "objectPrototype k =
     (if k = js ''constructor'' then Some (nativeFunction (js ''Object''))
      else if k = js ''__proto__'' then Some (js ''[object Object]'')
      else if k = js ''toString'' \<or> k = js ''toLocaleString'' \<or> k = js ''valueOf''
              \<or> k = js ''hasOwnProperty'' \<or> k = js ''isPrototypeOf''
              \<or> k = js ''propertyIsEnumerable'' \<or> k = js ''__defineGetter__''
              \<or> k = js ''__defineSetter__'' \<or> k = js ''__lookupGetter__''
              \<or> k = js ''__lookupSetter__''
      then Some (nativeFunction k)
      else None)"

definition getProp :: "jsobject \<Rightarrow> jsstring \<Rightarrow> jsval" where
  "getProp obj k =
     (case obj k of
        Some v \<Rightarrow> Str v
      | None \<Rightarrow> (case objectPrototype k of Some t \<Rightarrow> Inherited t | None \<Rightarrow> Undefined))"

definition setProp :: "jsobject \<Rightarrow> jsstring \<Rightarrow> jsstring \<Rightarrow> jsobject" where
  "setProp obj k v = (if k = js ''__proto__'' then obj else obj(k \<mapsto> v))"

text \<open>\<open>if (v)\<close> and \<open>s + v\<close> for such a value.\<close>

definition truthy :: "jsval \<Rightarrow> bool" where
  "truthy v = (case v of Undefined \<Rightarrow> False | Str s \<Rightarrow> s \<noteq> [] | Inherited t \<Rightarrow> True)"

definition toStr :: "jsval \<Rightarrow> jsstring" where
  "toStr v = (case v of Undefined \<Rightarrow> js ''undefined'' | Str s \<Rightarrow> s | Inherited t \<Rightarrow> t)"


section \<open>Regular expressions\<close>

text \<open>
  A regular expression is written in continuation-passing style: a piece takes what has to
  match after it (the continuation, a function of the rest of the input) and the input.
  A quantifier tries its alternatives in the order of a backtracking matcher (greedy:
  longest first; lazy: shortest first) and keeps the first one under which the
  continuation succeeds. A complete expression returns its capture groups and the input
  left after the match.
\<close>

type_synonym 'r cont = "jsstring \<Rightarrow> 'r option"

type_synonym regex = "jsstring \<Rightarrow> (jsstring list \<times> jsstring) option"

definition re_done :: "jsstring list \<Rightarrow> (jsstring list \<times> jsstring) cont" where
  "re_done caps rest = Some (caps, rest)"

fun re_lit :: "jsstring \<Rightarrow> 'r cont \<Rightarrow> 'r cont" where
  "re_lit [] k s = k s"
| "re_lit (p # ps) k [] = None"
| "re_lit (p # ps) k (c # cs) = (if c = p then re_lit ps k cs else None)"

fun re_lit_ci :: "jsstring \<Rightarrow> 'r cont \<Rightarrow> 'r cont" where
  "re_lit_ci [] k s = k s"
| "re_lit_ci (p # ps) k [] = None"
| "re_lit_ci (p # ps) k (c # cs) = (if canon c = canon p then re_lit_ci ps k cs else None)"

fun re_chr :: "(nat \<Rightarrow> bool) \<Rightarrow> 'r cont \<Rightarrow> 'r cont" where
  "re_chr P k [] = None"
| "re_chr P k (c # cs) = (if P c then k cs else None)"

fun re_star :: "(nat \<Rightarrow> bool) \<Rightarrow> 'r cont \<Rightarrow> 'r cont" where
  "re_star P k [] = k []"
| "re_star P k (c # cs) =
     (if P c then (case re_star P k cs of Some r \<Rightarrow> Some r | None \<Rightarrow> k (c # cs))
      else k (c # cs))"

definition re_plus :: "(nat \<Rightarrow> bool) \<Rightarrow> 'r cont \<Rightarrow> 'r cont" where
  "re_plus P k = re_chr P (re_star P k)"

fun re_lazy :: "(nat \<Rightarrow> bool) \<Rightarrow> 'r cont \<Rightarrow> 'r cont" where
  "re_lazy P k [] = k []"
| "re_lazy P k (c # cs) =
     (case k (c # cs) of Some r \<Rightarrow> Some r
      | None \<Rightarrow> if P c then re_lazy P k cs else None)"

definition re_opt :: "(nat \<Rightarrow> bool) \<Rightarrow> 'r cont \<Rightarrow> 'r cont" where
  "re_opt P k s =
     (case re_chr P k s of Some r \<Rightarrow> Some r | None \<Rightarrow> k s)"

fun re_alt :: "('r cont \<Rightarrow> 'r cont) list \<Rightarrow> 'r cont \<Rightarrow> 'r cont" where
  "re_alt [] k s = None"
| "re_alt (m # ms) k s = (case m k s of Some r \<Rightarrow> Some r | None \<Rightarrow> re_alt ms k s)"

definition re_eos :: "'r cont \<Rightarrow> 'r cont" where
  "re_eos k s = (if s = [] then k [] else None)"

text \<open>A capture group hands the text its body consumed to the continuation.\<close>

definition re_grp :: "('r cont \<Rightarrow> 'r cont) \<Rightarrow> (jsstring \<Rightarrow> 'r cont) \<Rightarrow> 'r cont" where
  "re_grp m k s = m (\<lambda>rest. k (take (length s - length rest) s) rest) s"

definition anyUnit :: "nat \<Rightarrow> bool" where
  "anyUnit c = True"

definition notUnit :: "char \<Rightarrow> nat \<Rightarrow> bool" where
  "notUnit x c = (c \<noteq> ch x)"

definition isUnit :: "char \<Rightarrow> nat \<Rightarrow> bool" where
  "isUnit x c = (c = ch x)"

definition isQuote :: "nat \<Rightarrow> bool" where
  "isQuote c = (c = 34 \<or> c = 39)"

definition notQuote :: "nat \<Rightarrow> bool" where
  "notQuote c = (c \<noteq> 34 \<and> c \<noteq> 39)"

text \<open>The text of a match, and of group \<open>i\<close> of a match array (group 0 is the whole
  match). The patterns of this program set every group they have.\<close>

definition matched :: "jsstring \<Rightarrow> jsstring \<Rightarrow> jsstring" where
  "matched s rest = take (length s - length rest) s"

definition match_group :: "jsstring list \<Rightarrow> nat \<Rightarrow> jsstring" where
  "match_group m i = (if i < length m then m ! i else [])"

text \<open>\<open>s.match(re)\<close> without the \<open>g\<close> flag: the first position where the expression
  matches; the result is the match array. With a leading \<open>^\<close> only position 0 is
  tried.\<close>

fun str_match :: "regex \<Rightarrow> jsstring \<Rightarrow> jsstring list option" where
  "str_match re [] = (case re [] of Some (caps, rest) \<Rightarrow> Some ([] # caps) | None \<Rightarrow> None)"
| "str_match re (c # cs) =
     (case re (c # cs) of
        Some (caps, rest) \<Rightarrow> Some (matched (c # cs) rest # caps)
      | None \<Rightarrow> str_match re cs)"

definition str_match_start :: "regex \<Rightarrow> jsstring \<Rightarrow> jsstring list option" where
  "str_match_start re s =
     (case re s of Some (caps, rest) \<Rightarrow> Some (matched s rest # caps) | None \<Rightarrow> None)"

text \<open>\<open>s.match(re)\<close> with the \<open>g\<close> flag: the texts of the successive matches, left to
  right, each search starting where the last match ended. JavaScript returns \<open>null\<close> for
  no match, which every caller treats as the empty list. No pattern of this program
  matches the empty string; a match that consumes nothing is passed over.\<close>

fun match_g :: "regex \<Rightarrow> jsstring \<Rightarrow> jsstring list" where
  "match_g re [] = []"
| "match_g re (c # cs) =
     (case re (c # cs) of
        Some (caps, rest) \<Rightarrow>
          if length rest \<le> length cs then matched (c # cs) rest # match_g re rest
          else match_g re cs
      | None \<Rightarrow> match_g re cs)"

text \<open>\<open>s.replace(re, f)\<close> with the \<open>g\<close> flag; \<open>f\<close> receives the match array.\<close>

fun replace_g :: "regex \<Rightarrow> (jsstring list \<Rightarrow> jsstring) \<Rightarrow> jsstring \<Rightarrow> jsstring" where
  "replace_g re f [] = []"
| "replace_g re f (c # cs) =
     (case re (c # cs) of
        Some (caps, rest) \<Rightarrow>
          if length rest \<le> length cs
          then f (matched (c # cs) rest # caps) @ replace_g re f rest
          else c # replace_g re f cs
      | None \<Rightarrow> c # replace_g re f cs)"

definition replace_with :: "regex \<Rightarrow> jsstring \<Rightarrow> jsstring \<Rightarrow> jsstring" where
  "replace_with re r s = replace_g re (\<lambda>m. r) s"

text \<open>\<open>s.replace(re, r)\<close> without the \<open>g\<close> flag: the first match only.\<close>

fun replace_first :: "regex \<Rightarrow> jsstring \<Rightarrow> jsstring \<Rightarrow> jsstring" where
  "replace_first re r [] = (case re [] of Some (caps, rest) \<Rightarrow> r | None \<Rightarrow> [])"
| "replace_first re r (c # cs) =
     (case re (c # cs) of
        Some (caps, rest) \<Rightarrow> r @ rest
      | None \<Rightarrow> c # replace_first re r cs)"

text \<open>\<open>s.split(re)\<close>: the texts between the matches, and after each match its capture
  groups (all of them, in order) spliced into the result. A match is only looked for at
  a position before the end of the input.\<close>

fun split_from :: "regex \<Rightarrow> jsstring \<Rightarrow> jsstring \<Rightarrow> jsstring list" where
  "split_from re cur [] = [cur]"
| "split_from re cur (c # cs) =
     (case re (c # cs) of
        Some (caps, rest) \<Rightarrow>
          if length rest \<le> length cs then cur # caps @ split_from re [] rest
          else split_from re (cur @ [c]) cs
      | None \<Rightarrow> split_from re (cur @ [c]) cs)"

definition split_re :: "regex \<Rightarrow> jsstring \<Rightarrow> jsstring list" where
  "split_re re s = split_from re [] s"


section \<open>The archive\<close>

text \<open>
  The archive is the object \<open>zip.files\<close> of the zip library: entry names (each one once),
  in the order of \<open>Object.keys\<close>, each a directory or a file. Reading a file as text gives its text, or
  the promise is rejected (data that cannot be decompressed). \<open>zip.file(p)\<close> is \<open>null\<close>
  for a name that is absent or a directory, and every read of the program is
  \<open>zip.file(p)?.async('text')\<close>, which is then \<open>undefined\<close>. The library keeps the
  entries in an object without prototype (\<open>Object.create(null)\<close>), so that a name is looked
  up among the entries only.
\<close>

datatype zipentry = Dir | Data jsstring | Unreadable

type_synonym zip = "(jsstring \<times> zipentry) list"

datatype readres = Absent | Rejected | Content jsstring

definition readText :: "zip \<Rightarrow> jsstring \<Rightarrow> readres" where
  "readText z p =
     (case map_of z p of
        None \<Rightarrow> Absent
      | Some Dir \<Rightarrow> Absent
      | Some Unreadable \<Rightarrow> Rejected
      | Some (Data s) \<Rightarrow> Content s)"

definition zipKeys :: "zip \<Rightarrow> jsstring list" where
  "zipKeys z = map fst z"

text \<open>The four fatal conditions, and a rejected read of the container or the package
  document, which the parsers let through to their caller.\<close>

datatype error =
    NoContainer
  | NoOPFPath
  | OPFNotFound jsstring
  | NoReadableContent jsstring
  | ReadFailed


section \<open>The structured parser (enhancedEpubParser.ts)\<close>

subsection \<open>Data\<close>

datatype elemtype =
  Heading | Paragraph | Blockquote | ListT | ListItem | PageBreak | Footnote | Image | Div

datatype jsnum = NaN | Num nat

text \<open>Of the fields of \<open>EPUBElement\<close> the parser sets \<open>type\<close>, \<open>level\<close> and
  \<open>content\<close>, and \<open>content\<close> always to a string.\<close>

record EPUBElement =
  el_type :: elemtype
  el_level :: "jsnum option"
  el_content :: jsstring

record EPUBChapter =
  ch_id :: jsstring
  ch_title :: jsstring
  ch_content :: "EPUBElement list"
  pageBreakBefore :: bool
  pageBreakAfter :: bool

record EPUBTableOfContents =
  toc_id :: jsstring
  toc_title :: jsstring
  toc_href :: jsstring
  toc_level :: nat

record EnhancedEPUBContent =
  title :: jsstring
  author :: jsstring
  chapters :: "EPUBChapter list"
  tableOfContents :: "EPUBTableOfContents list"
  footnotes :: "jsstring \<rightharpoonup> jsstring"
  pageBreaks :: "nat list"

record metadata =
  md_title :: jsstring
  md_author :: jsstring
  opfDir :: jsstring

subsection \<open>createElementFromTag\<close>

definition re_literal :: "jsstring \<Rightarrow> regex" where
  "re_literal p = re_lit p (re_done [])"

text \<open>\<^verbatim>\<open>/<[^>]+>/g\<close>\<close>

definition re_anyTag :: regex where
  "re_anyTag = re_lit (js ''<'') (re_plus (notUnit CHR ''>'') (re_lit (js ''>'') (re_done [])))"

text \<open>\<^verbatim>\<open>/\s+/g\<close>\<close>

definition re_spaces :: regex where
  "re_spaces = re_plus isWhiteSpace (re_done [])"

definition cleanContent :: "jsstring \<Rightarrow> jsstring" where
  \<open>cleanContent content =
     trim
      (replace_with re_spaces (js '' '')
      (replace_with (re_literal (js ''&#39;'')) [39]
      (replace_with (re_literal (js ''&quot;'')) [34]
      (replace_with (re_literal (js ''&gt;'')) (js ''>'')
      (replace_with (re_literal (js ''&lt;'')) (js ''<'')
      (replace_with (re_literal (js ''&amp;'')) (js ''&'')
      (replace_with (re_literal (js ''&nbsp;'')) (js '' '')
      (replace_with re_anyTag (js '' '') content))))))))\<close>

definition mkElement :: "elemtype \<Rightarrow> jsnum option \<Rightarrow> jsstring \<Rightarrow> EPUBElement" where
  "mkElement t l c = \<lparr>el_type = t, el_level = l, el_content = c\<rparr>"

definition createElementFromTag :: "jsstring \<Rightarrow> jsstring \<Rightarrow> EPUBElement option" where
  "createElementFromTag tagName content =
     (let c = cleanContent content in
      if c = [] then None
      else if tagName = js ''h1'' then Some (mkElement Heading (Some (Num 1)) c)
      else if tagName = js ''h2'' then Some (mkElement Heading (Some (Num 2)) c)
      else if tagName = js ''h3'' then Some (mkElement Heading (Some (Num 3)) c)
      else if tagName = js ''h4'' then Some (mkElement Heading (Some (Num 4)) c)
      else if tagName = js ''h5'' then Some (mkElement Heading (Some (Num 5)) c)
      else if tagName = js ''h6'' then Some (mkElement Heading (Some (Num 6)) c)
      else if tagName = js ''p'' then Some (mkElement Paragraph None c)
      else if tagName = js ''div'' then Some (mkElement Div None c)
      else if tagName = js ''blockquote'' then Some (mkElement Blockquote None c)
      else if tagName = js ''li'' then Some (mkElement ListItem None c)
      else Some (mkElement Paragraph None c))"

subsection \<open>parseHTMLElements\<close>

text \<open>\<^verbatim>\<open>/<body[^>]*>([\s\S]*)<\/body>/i\<close>\<close>

definition re_body :: regex where
  "re_body =
     re_lit_ci (js ''<body'') (re_star (notUnit CHR ''>'') (re_lit (js ''>'')
       (re_grp (re_star anyUnit) (\<lambda>g. re_lit_ci (js ''</body>'') (re_done [g])))))"

text \<open>\<^verbatim>\<open>/(<\/?(h[1-6]|p|div|blockquote|ul|ol|li|br)[^>]*>)/gi\<close>: group 1 is the whole
  match, group 2 the tag name.\<close>

definition is1to6 :: "nat \<Rightarrow> bool" where
  "is1to6 c = (49 \<le> c \<and> c \<le> 54)"

definition re_blockName :: "'r cont \<Rightarrow> 'r cont" where
  "re_blockName =
     re_alt [\<lambda>k. re_lit_ci (js ''h'') (re_chr is1to6 k), re_lit_ci (js ''p''),
             re_lit_ci (js ''div''), re_lit_ci (js ''blockquote''), re_lit_ci (js ''ul''),
             re_lit_ci (js ''ol''), re_lit_ci (js ''li''), re_lit_ci (js ''br'')]"

definition blockPattern :: regex where
  "blockPattern s =
     (case re_lit (js ''<'') (re_opt (isUnit CHR ''/'')
             (re_grp re_blockName (\<lambda>g2.
                re_star (notUnit CHR ''>'') (re_lit (js ''>'') (re_done [g2]))))) s of
        Some (caps, rest) \<Rightarrow> Some (matched s rest # caps, rest)
      | None \<Rightarrow> None)"

text \<open>\<^verbatim>\<open>/^<\/?[^>]+>$/\<close> and \<^verbatim>\<open>/^<\/?([^>\s]+)/\<close>\<close>

definition re_isTag :: regex where
  "re_isTag =
     re_lit (js ''<'') (re_opt (isUnit CHR ''/'')
       (re_plus (notUnit CHR ''>'') (re_lit (js ''>'') (re_eos (re_done [])))))"

definition tagNameUnit :: "nat \<Rightarrow> bool" where
  "tagNameUnit c = (c \<noteq> ch CHR ''>'' \<and> \<not> isWhiteSpace c)"

definition re_tagName :: regex where
  "re_tagName =
     re_lit (js ''<'') (re_opt (isUnit CHR ''/'')
       (re_grp (re_plus tagNameUnit) (\<lambda>g. re_done [g])))"

text \<open>\<open>parseInt(tagName[1])\<close>: the second code unit of the tag name, a digit or not.\<close>

definition parseIntAt1 :: "jsstring \<Rightarrow> jsnum" where
  "parseIntAt1 tagName =
     (case tagName of
        _ # d # _ \<Rightarrow> if 48 \<le> d \<and> d \<le> 57 then Num (d - 48) else NaN
      | _ \<Rightarrow> NaN)"

record pstate =
  elements :: "EPUBElement list"
  currentElement :: jsstring
  inList :: bool

definition closeTag :: "jsstring \<Rightarrow> pstate \<Rightarrow> pstate" where
  "closeTag tagName st =
     \<lparr>elements =
        (if trim (currentElement st) \<noteq> []
         then (case createElementFromTag tagName (currentElement st) of
                 Some element \<Rightarrow> elements st @ [element]
               | None \<Rightarrow> elements st)
         else elements st),
      currentElement = [],
      inList = (if tagName = js ''ul'' \<or> tagName = js ''ol'' then False else inList st)\<rparr>"

definition openTag :: "jsstring \<Rightarrow> pstate \<Rightarrow> pstate" where
  "openTag tagName st =
     (if tagName = js ''ul'' \<or> tagName = js ''ol'' then st\<lparr>inList := True\<rparr>
      else if tagName = js ''br''
      then st\<lparr>elements := elements st @ [mkElement Paragraph None []]\<rparr>
      else if startsWith tagName (js ''h'')
      then (if trim (currentElement st) \<noteq> []
            then st\<lparr>elements := elements st @
                        [mkElement Heading (Some (parseIntAt1 tagName)) (trim (currentElement st))],
                    currentElement := []\<rparr>
            else st)
      else st)"

definition processPart :: "pstate \<Rightarrow> jsstring \<Rightarrow> pstate" where
  "processPart st raw =
     (let part = trim raw in
      if part = [] then st
      else if str_match_start re_isTag part \<noteq> None
      then (case str_match_start re_tagName part of
              None \<Rightarrow> st
            | Some tagMatch \<Rightarrow>
                (let tagName = toLowerCase (match_group tagMatch 1) in
                 if startsWith part (js ''</'') then closeTag tagName st
                 else openTag tagName st))
      else st\<lparr>currentElement := currentElement st @ part @ js '' ''\<rparr>)"

definition keepElement :: "EPUBElement \<Rightarrow> bool" where
  "keepElement el = (el_content el \<noteq> [] \<and> trim (el_content el) \<noteq> [])"

definition parseHTMLElements :: "jsstring \<Rightarrow> EPUBElement list" where
  "parseHTMLElements html =
     (let content = (case str_match re_body html of
                       Some bodyMatch \<Rightarrow> match_group bodyMatch 1
                     | None \<Rightarrow> html);
          parts = split_re blockPattern content;
          st = foldl processPart
                 \<lparr>elements = [], currentElement = [], inList = False\<rparr> parts;
          els = (if trim (currentElement st) \<noteq> []
                 then elements st @ [mkElement Paragraph None (trim (currentElement st))]
                 else elements st)
      in filter keepElement els)"

subsection \<open>parseHTMLToStructuredContent\<close>

text \<open>\<^verbatim>\<open>/.*\//\<close> (the dot is any code unit but a line terminator) and
  \<^verbatim>\<open>/\.(html|xhtml|htm)$/\<close>\<close>

definition notLineTerminator :: "nat \<Rightarrow> bool" where
  "notLineTerminator c = (c \<noteq> 10 \<and> c \<noteq> 13 \<and> c \<noteq> 8232 \<and> c \<noteq> 8233)"

definition re_dirPart :: regex where
  "re_dirPart = re_star notLineTerminator (re_lit (js ''/'') (re_done []))"

definition re_htmlExt :: regex where
  "re_htmlExt =
     re_lit (js ''.'')
       (re_grp (re_alt [re_lit (js ''html''), re_lit (js ''xhtml''), re_lit (js ''htm'')])
          (\<lambda>g. re_eos (re_done [g])))"

text \<open>\<^verbatim>\<open>/<title[^>]*>([^<]+)<\/title>/i\<close> and
  \<^verbatim>\<open>/<h[1-6][^>]*>([^<]+)<\/h[1-6]>/i\<close>\<close>

definition re_title :: regex where
  "re_title =
     re_lit_ci (js ''<title'') (re_star (notUnit CHR ''>'') (re_lit (js ''>'')
       (re_grp (re_plus (notUnit CHR ''<'')) (\<lambda>g. re_lit_ci (js ''</title>'') (re_done [g])))))"

definition re_heading :: regex where
  "re_heading =
     re_lit_ci (js ''<h'') (re_chr is1to6 (re_star (notUnit CHR ''>'') (re_lit (js ''>'')
       (re_grp (re_plus (notUnit CHR ''<''))
          (\<lambda>g. re_lit_ci (js ''</h'') (re_chr is1to6 (re_lit (js ''>'') (re_done [g]))))))))"

text \<open>\<^verbatim>\<open>/<style[^>]*>[\s\S]*?<\/style>/gi\<close> and the same for \<open>script\<close>;
  \<^verbatim>\<open>/<meta[^>]*>/gi\<close> and the same for \<open>link\<close>.\<close>

definition re_block :: "string \<Rightarrow> regex" where
  "re_block name =
     re_lit_ci (js ''<'' @ js name) (re_star (notUnit CHR ''>'') (re_lit (js ''>'')
       (re_lazy anyUnit (re_lit_ci (js ''</'' @ js name @ js ''>'') (re_done [])))))"

definition re_openTag :: "string \<Rightarrow> regex" where
  "re_openTag name =
     re_lit_ci (js ''<'' @ js name) (re_star (notUnit CHR ''>'') (re_lit (js ''>'') (re_done [])))"

text \<open>\<^verbatim>\<open>/<div[^>]*class="footnote"[^>]*>[\s\S]*?<\/div>/gi\<close>\<close>

definition re_footnote :: regex where
  \<open>re_footnote =
     re_lit_ci (js ''<div'') (re_star (notUnit CHR ''>'')
       (re_lit_ci (js ''class="footnote"'') (re_star (notUnit CHR ''>'') (re_lit (js ''>'')
          (re_lazy anyUnit (re_lit_ci (js ''</div>'') (re_done [])))))))\<close>

text \<open>\<^verbatim>\<open>/id=["']([^"']+)["']/\<close>, with \<open>href\<close> and \<open>media-type\<close> alike, and
  \<^verbatim>\<open>/>([^<]+)</\<close>\<close>

definition re_attr :: "string \<Rightarrow> regex" where
  "re_attr name =
     re_lit (js name @ js ''='') (re_chr isQuote
       (re_grp (re_plus notQuote) (\<lambda>g. re_chr isQuote (re_done [g]))))"

definition re_innerText :: regex where
  "re_innerText =
     re_lit (js ''>'')
       (re_grp (re_plus (notUnit CHR ''<'')) (\<lambda>g. re_lit (js ''<'') (re_done [g])))"

definition chapterTitleOf :: "jsstring \<Rightarrow> jsstring \<Rightarrow> jsstring" where
  "chapterTitleOf html filePath =
     (case str_match re_title html of
        Some titleMatch \<Rightarrow> match_group titleMatch 1
      | None \<Rightarrow>
          (case str_match re_heading html of
             Some headingMatch \<Rightarrow> match_group headingMatch 1
           | None \<Rightarrow> replace_first re_htmlExt [] (replace_first re_dirPart [] filePath)))"

definition addFootnote :: "jsobject \<Rightarrow> jsstring \<Rightarrow> jsobject" where
  "addFootnote fs footnoteHtml =
     (case str_match (re_attr ''id'') footnoteHtml of
        None \<Rightarrow> fs
      | Some idMatch \<Rightarrow>
          (case str_match re_innerText footnoteHtml of
             None \<Rightarrow> fs
           | Some textMatch \<Rightarrow>
               setProp fs (match_group idMatch 1) (trim (match_group textMatch 1))))"

definition parseHTMLToStructuredContent ::
  "jsstring \<Rightarrow> jsstring \<Rightarrow> jsstring \<Rightarrow> EPUBChapter \<times> (jsstring \<rightharpoonup> jsstring)" where
  "parseHTMLToStructuredContent html chapterId filePath =
     (let chapterTitle = chapterTitleOf html filePath;
          cleanHtml = replace_with (re_openTag ''link'') []
                       (replace_with (re_openTag ''meta'') []
                       (replace_with (re_block ''script'') []
                       (replace_with (re_block ''style'') [] html)));
          footnoteMatches = match_g re_footnote cleanHtml;
          fs = foldl addFootnote Map.empty footnoteMatches;
          cleanHtml' = (if footnoteMatches = [] then cleanHtml
                        else replace_with re_footnote [] cleanHtml)
      in (\<lparr>ch_id = chapterId, ch_title = chapterTitle,
           ch_content = parseHTMLElements cleanHtml',
           pageBreakBefore = str_includes html (js ''page-break-before''),
           pageBreakAfter = str_includes html (js ''page-break-after'')\<rparr>, fs))"

subsection \<open>extractEPUBStructure\<close>

text \<open>\<open>manifestItems\<close> is an object used as a dictionary from manifest id to href.\<close>

type_synonym manifest = jsobject

record epubStructure =
  st_metadata :: metadata
  manifestItems :: manifest
  spineIds :: "jsstring list"
  tocPath :: "jsstring option"

text \<open>\<^verbatim>\<open>/full-path="([^"]+)"/\<close>\<close>

definition re_fullPath :: regex where
  \<open>re_fullPath =
     re_lit (js ''full-path="'')
       (re_grp (re_plus (notUnit CHR 0x22)) (\<lambda>g. re_lit [34] (re_done [g])))\<close>

text \<open>\<^verbatim>\<open>/<dc:title[^>]*>([^<]+)<\/dc:title>/\<close>, and the same for \<open>dc:creator\<close>\<close>

definition re_dc :: "string \<Rightarrow> regex" where
  "re_dc name =
     re_lit (js ''<dc:'' @ js name) (re_star (notUnit CHR ''>'') (re_lit (js ''>'')
       (re_grp (re_plus (notUnit CHR ''<''))
          (\<lambda>g. re_lit (js ''</dc:'' @ js name @ js ''>'') (re_done [g])))))"

text \<open>\<^verbatim>\<open>/<itemref[^>]*idref="([^"]+)"/g\<close>, \<^verbatim>\<open>/idref="([^"]+)"/\<close> and
  \<^verbatim>\<open>/<item[^>]*>/g\<close>\<close>

definition re_idref :: regex where
  \<open>re_idref =
     re_lit (js ''idref="'')
       (re_grp (re_plus (notUnit CHR 0x22)) (\<lambda>g. re_lit [34] (re_done [g])))\<close>

definition re_itemref :: regex where
  \<open>re_itemref =
     re_lit (js ''<itemref'') (re_star (notUnit CHR ''>'')
       (re_lit (js ''idref="'')
          (re_grp (re_plus (notUnit CHR 0x22)) (\<lambda>g. re_lit [34] (re_done [g])))))\<close>

definition re_item :: regex where
  "re_item =
     re_lit (js ''<item'') (re_star (notUnit CHR ''>'') (re_lit (js ''>'') (re_done [])))"

text \<open>\<open>s.lastIndexOf(c)\<close> and \<open>s.substring(0, n)\<close>\<close>

definition lastIndexOf :: "jsstring \<Rightarrow> nat \<Rightarrow> int" where
  "lastIndexOf s c =
     (if c \<in> set s then int (length s) - 1 - int (length (takeWhile (\<lambda>x. x \<noteq> c) (rev s)))
      else - 1)"

definition substring0 :: "jsstring \<Rightarrow> int \<Rightarrow> jsstring" where
  "substring0 s n = take (nat n) s"

definition spineIdsOf :: "jsstring \<Rightarrow> jsstring list" where
  "spineIdsOf opfFile =
     List.map_filter
       (\<lambda>m. case str_match re_idref m of
               Some idMatch \<Rightarrow> Some (match_group idMatch 1)
             | None \<Rightarrow> None)
       (match_g re_itemref opfFile)"

text \<open>The body of the \<open>forEach\<close> over the manifest matches: the state is the manifest
  and \<open>tocPath\<close>.\<close>

definition isTocItem :: "jsstring \<Rightarrow> jsstring \<Rightarrow> jsstring list option \<Rightarrow> bool" where
  "isTocItem itemId href mediaTypeMatch =
     (case mediaTypeMatch of
        None \<Rightarrow> False
      | Some m \<Rightarrow>
          match_group m 1 = js ''application/x-dtbncx+xml''
          \<or> str_includes (toLowerCase itemId) (js ''toc'')
          \<or> str_includes (toLowerCase href) (js ''toc''))"

definition scanManifestItem ::
  "manifest \<times> jsstring option \<Rightarrow> jsstring \<Rightarrow> manifest \<times> jsstring option" where
  "scanManifestItem acc item =
     (case str_match (re_attr ''id'') item of
        None \<Rightarrow> acc
      | Some idMatch \<Rightarrow>
          (case str_match (re_attr ''href'') item of
             None \<Rightarrow> acc
           | Some hrefMatch \<Rightarrow>
               (setProp (fst acc) (match_group idMatch 1) (match_group hrefMatch 1),
                if isTocItem (match_group idMatch 1) (match_group hrefMatch 1)
                     (str_match (re_attr ''media-type'') item)
                then Some (match_group hrefMatch 1) else snd acc)))"

definition scanManifest :: "jsstring list \<Rightarrow> manifest \<times> jsstring option" where
  "scanManifest manifestMatches = foldl scanManifestItem (Map.empty, None) manifestMatches"

definition structureOf :: "jsstring \<Rightarrow> jsstring \<Rightarrow> epubStructure" where
  "structureOf opfPath opfFile =
     (let title = (case str_match (re_dc ''title'') opfFile of
                     Some titleMatch \<Rightarrow> match_group titleMatch 1
                   | None \<Rightarrow> js ''Unknown Title'');
          author = (case str_match (re_dc ''creator'') opfFile of
                      Some authorMatch \<Rightarrow> match_group authorMatch 1
                    | None \<Rightarrow> js ''Unknown Author'');
          opfDir = substring0 opfPath (lastIndexOf opfPath (ch CHR ''/'') + 1);
          scanned = scanManifest (match_g re_item opfFile)
      in \<lparr>st_metadata = \<lparr>md_title = title, md_author = author, opfDir = opfDir\<rparr>,
          manifestItems = fst scanned,
          spineIds = spineIdsOf opfFile,
          tocPath = snd scanned\<rparr>)"

text \<open>The container and the package document are read and tested with \<open>!\<close>: an empty
  text counts as absent.\<close>

definition findOpf :: "zip \<Rightarrow> error + jsstring \<times> jsstring" where
  "findOpf z =
     (case readText z (js ''META-INF/container.xml'') of
        Rejected \<Rightarrow> Inl ReadFailed
      | Absent \<Rightarrow> Inl NoContainer
      | Content containerXml \<Rightarrow>
          if containerXml = [] then Inl NoContainer
          else (case str_match re_fullPath containerXml of
                  None \<Rightarrow> Inl NoOPFPath
                | Some containerMatch \<Rightarrow>
                    (let opfPath = match_group containerMatch 1 in
                     case readText z opfPath of
                       Rejected \<Rightarrow> Inl ReadFailed
                     | Absent \<Rightarrow> Inl (OPFNotFound opfPath)
                     | Content opfFile \<Rightarrow>
                         if opfFile = [] then Inl (OPFNotFound opfPath)
                         else Inr (opfPath, opfFile))))"

definition extractEPUBStructure :: "zip \<Rightarrow> error + epubStructure" where
  "extractEPUBStructure z =
     (case findOpf z of
        Inl e \<Rightarrow> Inl e
      | Inr (opfPath, opfFile) \<Rightarrow> Inr (structureOf opfPath opfFile))"

subsection \<open>parseTableOfContents\<close>

fun showNat :: "nat \<Rightarrow> jsstring" where
  "showNat n = (if n < 10 then [48 + n] else showNat (n div 10) @ [48 + n mod 10])"

declare showNat.simps [simp del]

text \<open>\<^verbatim>\<open>/<navPoint[^>]*>[\s\S]*?<\/navPoint>/g\<close>, \<^verbatim>\<open>/<text[^>]*>([^<]+)<\/text>/\<close>,
  \<^verbatim>\<open>/<content[^>]*src=["']([^"'#]+)/\<close>\<close>

definition re_navPoint :: regex where
  "re_navPoint =
     re_lit (js ''<navPoint'') (re_star (notUnit CHR ''>'') (re_lit (js ''>'')
       (re_lazy anyUnit (re_lit (js ''</navPoint>'') (re_done [])))))"

definition re_ncxText :: regex where
  "re_ncxText =
     re_lit (js ''<text'') (re_star (notUnit CHR ''>'') (re_lit (js ''>'')
       (re_grp (re_plus (notUnit CHR ''<'')) (\<lambda>g. re_lit (js ''</text>'') (re_done [g])))))"

definition hrefUnit :: "nat \<Rightarrow> bool" where
  "hrefUnit c = (notQuote c \<and> c \<noteq> ch CHR ''#'')"

definition re_ncxContent :: regex where
  "re_ncxContent =
     re_lit (js ''<content'') (re_star (notUnit CHR ''>'')
       (re_lit (js ''src='') (re_chr isQuote
          (re_grp (re_plus hrefUnit) (\<lambda>g. re_done [g])))))"

text \<open>\<^verbatim>\<open>/<li[^>]*>[\s\S]*?<\/li>/g\<close> and
  \<^verbatim>\<open>/<a[^>]*href=["']([^"'#]+)[^"']*["'][^>]*>([^<]+)<\/a>/\<close>\<close>

definition re_li :: regex where
  "re_li =
     re_lit (js ''<li'') (re_star (notUnit CHR ''>'') (re_lit (js ''>'')
       (re_lazy anyUnit (re_lit (js ''</li>'') (re_done [])))))"

definition re_navLink :: regex where
  "re_navLink =
     re_lit (js ''<a'') (re_star (notUnit CHR ''>'')
       (re_lit (js ''href='') (re_chr isQuote
          (re_grp (re_plus hrefUnit) (\<lambda>g1.
             re_star notQuote (re_chr isQuote (re_star (notUnit CHR ''>'') (re_lit (js ''>'')
               (re_grp (re_plus (notUnit CHR ''<''))
                  (\<lambda>g2. re_lit (js ''</a>'') (re_done [g1, g2])))))))))))"

definition ncxEntry :: "nat \<times> jsstring \<Rightarrow> EPUBTableOfContents option" where
  "ncxEntry p =
     (case str_match re_ncxText (snd p) of
        None \<Rightarrow> None
      | Some titleMatch \<Rightarrow>
          (case str_match re_ncxContent (snd p) of
             None \<Rightarrow> None
           | Some hrefMatch \<Rightarrow>
               Some \<lparr>toc_id = (case str_match (re_attr ''id'') (snd p) of
                                 Some idMatch \<Rightarrow> match_group idMatch 1
                               | None \<Rightarrow> js ''toc-'' @ showNat (fst p)),
                     toc_title = trim (match_group titleMatch 1),
                     toc_href = match_group hrefMatch 1,
                     toc_level = 1\<rparr>))"

definition navEntry :: "nat \<times> jsstring \<Rightarrow> EPUBTableOfContents option" where
  "navEntry p =
     (case str_match re_navLink (snd p) of
        None \<Rightarrow> None
      | Some linkMatch \<Rightarrow>
          Some \<lparr>toc_id = js ''toc-'' @ showNat (fst p),
                toc_title = trim (match_group linkMatch 2),
                toc_href = match_group linkMatch 1,
                toc_level = 1\<rparr>)"

definition parseTocContent :: "jsstring \<Rightarrow> EPUBTableOfContents list" where
  "parseTocContent tocContent =
     (if str_includes tocContent (js ''<navMap>'')
      then List.map_filter ncxEntry (List.enumerate 0 (match_g re_navPoint tocContent))
      else if str_includes tocContent (js ''<nav'')
      then List.map_filter navEntry (List.enumerate 0 (match_g re_li tocContent))
      else [])"

text \<open>A missing \<open>tocPath\<close>, a missing or empty document and a rejected read (the
  \<open>catchError\<close>) all give the empty table.\<close>

definition parseTableOfContents ::
  "zip \<Rightarrow> metadata \<Rightarrow> jsstring option \<Rightarrow> EPUBTableOfContents list" where
  "parseTableOfContents z md tp =
     (case tp of
        None \<Rightarrow> []
      | Some p \<Rightarrow>
          if p = [] then []
          else (case readText z (opfDir md @ p) of
                  Absent \<Rightarrow> []
                | Rejected \<Rightarrow> []
                | Content tocContent \<Rightarrow>
                    if tocContent = [] then [] else parseTocContent tocContent))"

subsection \<open>processEnhancedContent\<close>

text \<open>The recursion over the spine by index, with the three accumulators. A spine id
  for which \<open>manifestItems[spineId]\<close> is falsy moves on; a rejected read is caught and
  moves on with the accumulators as they were; a missing or empty document gives no
  chapter and no footnotes. When \<open>manifestItems[spineId]\<close> is an inherited member and the
  entry of that name has a text, \<open>parseHTMLToStructuredContent\<close> throws a \<open>TypeError\<close> at
  \<open>filePath.replace\<close>, which the \<open>catchError\<close> takes like a rejected read.\<close>

function processChaptersSequentially ::
  "zip \<Rightarrow> metadata \<Rightarrow> manifest \<Rightarrow> jsstring list \<Rightarrow> EPUBTableOfContents list \<Rightarrow> nat \<Rightarrow>
   EPUBChapter list \<Rightarrow> (jsstring \<rightharpoonup> jsstring) \<Rightarrow> nat list \<Rightarrow> EnhancedEPUBContent" where
  "processChaptersSequentially z md mf ids toc index accumulatedChapters
       accumulatedFootnotes accumulatedPageBreaks =
     (if index \<ge> length ids
      then \<lparr>title = md_title md, author = md_author md, chapters = accumulatedChapters,
            tableOfContents = toc, footnotes = accumulatedFootnotes,
            pageBreaks = accumulatedPageBreaks\<rparr>
      else
        (let filePath = getProp mf (ids ! index) in
         if \<not> truthy filePath
         then processChaptersSequentially z md mf ids toc (index + 1) accumulatedChapters
                accumulatedFootnotes accumulatedPageBreaks
         else
           (case readText z (opfDir md @ toStr filePath) of
              Rejected \<Rightarrow>
                processChaptersSequentially z md mf ids toc (index + 1)
                  accumulatedChapters accumulatedFootnotes accumulatedPageBreaks
            | Absent \<Rightarrow>
                processChaptersSequentially z md mf ids toc (index + 1)
                  accumulatedChapters (accumulatedFootnotes ++ Map.empty)
                  accumulatedPageBreaks
            | Content fileContent \<Rightarrow>
                if fileContent = []
                then processChaptersSequentially z md mf ids toc (index + 1)
                       accumulatedChapters (accumulatedFootnotes ++ Map.empty)
                       accumulatedPageBreaks
                else
                  (case filePath of
                     Str path \<Rightarrow>
                       (let parsed = parseHTMLToStructuredContent fileContent (ids ! index)
                                       path
                        in processChaptersSequentially z md mf ids toc (index + 1)
                             (accumulatedChapters @ [fst parsed])
                             (accumulatedFootnotes ++ snd parsed)
                             accumulatedPageBreaks)
                   | _ \<Rightarrow>
                       processChaptersSequentially z md mf ids toc (index + 1)
                         accumulatedChapters accumulatedFootnotes accumulatedPageBreaks))))"
  by pat_completeness auto
termination
  by (relation "measure (\<lambda>(z, md, mf, ids, toc, index, r). length ids - index)") auto

declare processChaptersSequentially.simps [simp del]

definition processEnhancedContent ::
  "zip \<Rightarrow> metadata \<Rightarrow> manifest \<Rightarrow> jsstring list \<Rightarrow> EPUBTableOfContents list \<Rightarrow>
   EnhancedEPUBContent" where
  "processEnhancedContent z md mf ids toc =
     (let maxChapters = 25;
          chaptersToProcess = take maxChapters ids
      in if length chaptersToProcess = 0
         then \<lparr>title = md_title md, author = md_author md, chapters = [],
               tableOfContents = toc, footnotes = Map.empty, pageBreaks = []\<rparr>
         else processChaptersSequentially z md mf chaptersToProcess toc 0 [] Map.empty [])"

subsection \<open>parseEPUB\<close>

definition parseEPUB :: "zip \<Rightarrow> error + EnhancedEPUBContent" where
  "parseEPUB z =
     (case extractEPUBStructure z of
        Inl e \<Rightarrow> Inl e
      | Inr st \<Rightarrow>
          Inr (processEnhancedContent z (st_metadata st) (manifestItems st) (spineIds st)
                 (parseTableOfContents z (st_metadata st) (tocPath st))))"


section \<open>The text parsers (epubParserService.ts, epubParser.ts)\<close>

subsection \<open>Flattening markup to text\<close>

text \<open>A chain of \<open>.replace(...)\<close> calls is the list of its steps, applied left to
  right.\<close>

definition pipe :: "'a \<Rightarrow> ('a \<Rightarrow> 'a) list \<Rightarrow> 'a" where
  "pipe x fs = foldl (\<lambda>a f. f a) x fs"

text \<open>\<^verbatim>\<open>/<h([1-6])[^>]*>/gi\<close> with its replacement function, and \<^verbatim>\<open>/<\/h[1-6]>/gi\<close>\<close>

definition re_hOpen :: regex where
  "re_hOpen =
     re_lit_ci (js ''<h'')
       (re_grp (re_chr is1to6)
          (\<lambda>g. re_star (notUnit CHR ''>'') (re_lit (js ''>'') (re_done [g]))))"

definition parseIntDigit :: "jsstring \<Rightarrow> nat" where
  "parseIntDigit level = (case level of [d] \<Rightarrow> d - 48 | _ \<Rightarrow> 0)"

definition hMarker :: "jsstring list \<Rightarrow> jsstring" where
  "hMarker m = [10] @ replicate (parseIntDigit (match_group m 1)) (ch CHR ''#'') @ js '' ''"

definition re_hClose :: regex where
  "re_hClose = re_lit_ci (js ''</h'') (re_chr is1to6 (re_lit (js ''>'') (re_done [])))"

definition re_closeTag :: "string \<Rightarrow> regex" where
  "re_closeTag name = re_lit_ci (js ''</'' @ js name @ js ''>'') (re_done [])"

text \<open>\<^verbatim>\<open>/<br\s*\/?>/gi\<close> and \<^verbatim>\<open>/<div[^>]*page-break[^>]*>/gi\<close>\<close>

definition re_br :: regex where
  "re_br =
     re_lit_ci (js ''<br'')
       (re_star isWhiteSpace (re_opt (isUnit CHR ''/'') (re_lit (js ''>'') (re_done []))))"

definition re_pageBreakDiv :: regex where
  "re_pageBreakDiv =
     re_lit_ci (js ''<div'') (re_star (notUnit CHR ''>'')
       (re_lit_ci (js ''page-break'') (re_star (notUnit CHR ''>'')
          (re_lit (js ''>'') (re_done [])))))"

text \<open>\<^verbatim>\<open>/[ \t]+/g\<close>, \<^verbatim>\<open>/\n[ \t]+/g\<close>, \<^verbatim>\<open>/[ \t]+\n/g\<close> and \<^verbatim>\<open>/\n{3,}/g\<close>\<close>

definition isBlank :: "nat \<Rightarrow> bool" where
  "isBlank c = (c = 32 \<or> c = 9)"

definition isNewline :: "nat \<Rightarrow> bool" where
  "isNewline c = (c = 10)"

definition re_blanks :: regex where
  "re_blanks = re_plus isBlank (re_done [])"

definition re_nlBlanks :: regex where
  "re_nlBlanks = re_lit [10] (re_plus isBlank (re_done []))"

definition re_blanksNl :: regex where
  "re_blanksNl = re_plus isBlank (re_lit [10] (re_done []))"

definition re_newlines3 :: regex where
  "re_newlines3 = re_lit [10, 10, 10] (re_star isNewline (re_done []))"

definition collapseBlanks :: "jsstring \<Rightarrow> jsstring" where
  "collapseBlanks = replace_with re_blanks (js '' '')"

definition stripAfterNewline :: "jsstring \<Rightarrow> jsstring" where
  "stripAfterNewline = replace_with re_nlBlanks [10]"

definition stripBeforeNewline :: "jsstring \<Rightarrow> jsstring" where
  "stripBeforeNewline = replace_with re_blanksNl [10]"

definition collapseNewlines :: "jsstring \<Rightarrow> jsstring" where
  "collapseNewlines = replace_with re_newlines3 [10, 10]"

definition whitespaceSteps :: "(jsstring \<Rightarrow> jsstring) list" where
  "whitespaceSteps =
     [collapseBlanks, stripAfterNewline, stripBeforeNewline, collapseNewlines, trim]"

definition entitySteps :: "(jsstring \<Rightarrow> jsstring) list" where
  "entitySteps =
     [replace_with (re_literal (js ''&nbsp;'')) (js '' ''),
      replace_with (re_literal (js ''&amp;'')) (js ''&''),
      replace_with (re_literal (js ''&lt;'')) (js ''<''),
      replace_with (re_literal (js ''&gt;'')) (js ''>''),
      replace_with (re_literal (js ''&quot;'')) [34],
      replace_with (re_literal (js ''&#39;'')) [39],
      replace_with (re_literal (js ''&#8220;'')) [34],
      replace_with (re_literal (js ''&#8221;'')) [34],
      replace_with (re_literal (js ''&#8216;'')) [39],
      replace_with (re_literal (js ''&#8217;'')) [39],
      replace_with (re_literal (js ''&#8211;'')) [8211],
      replace_with (re_literal (js ''&#8212;'')) [8212]]"

text \<open>The bullet is U+2022.\<close>

definition markupSteps :: "(jsstring \<Rightarrow> jsstring) list" where
  "markupSteps =
     [replace_with (re_block ''style'') [],
      replace_with (re_block ''script'') [],
      replace_g re_hOpen hMarker,
      replace_with re_hClose [10, 10],
      replace_with (re_openTag ''p'') [10],
      replace_with (re_closeTag ''p'') [10, 10],
      replace_with (re_openTag ''div'') [10],
      replace_with (re_closeTag ''div'') [10],
      replace_with (re_openTag ''blockquote'') ([10] @ js ''> ''),
      replace_with (re_closeTag ''blockquote'') [10, 10],
      replace_with (re_openTag ''ul'') [10],
      replace_with (re_closeTag ''ul'') [10],
      replace_with (re_openTag ''ol'') [10],
      replace_with (re_closeTag ''ol'') [10],
      replace_with (re_openTag ''li'') [8226, 32],
      replace_with (re_closeTag ''li'') [10],
      replace_with re_br [10],
      replace_with re_pageBreakDiv ([10] @ js ''[PAGE BREAK]'' @ [10]),
      replace_with re_anyTag (js '' '')]"

text \<open>\<open>htmlToText\<close> of the service.\<close>

definition htmlToText :: "jsstring \<Rightarrow> jsstring" where
  "htmlToText html = pipe html (markupSteps @ entitySteps @ whitespaceSteps)"

text \<open>The two chains written out in \<open>parseEPUB\<close> of epubParser.ts: the one of the spine
  loop also decodes the ellipsis; the one of the fallback loop has no step for \<open>ul\<close> and
  \<open>ol\<close>.\<close>

definition spineText :: "jsstring \<Rightarrow> jsstring" where
  "spineText fileContent =
     pipe fileContent
       (markupSteps @ entitySteps @ [replace_with (re_literal (js ''&#8230;'')) [8230]]
        @ whitespaceSteps)"

definition fallbackMarkupSteps :: "(jsstring \<Rightarrow> jsstring) list" where
  "fallbackMarkupSteps =
     [replace_with (re_block ''style'') [],
      replace_with (re_block ''script'') [],
      replace_g re_hOpen hMarker,
      replace_with re_hClose [10, 10],
      replace_with (re_openTag ''p'') [10],
      replace_with (re_closeTag ''p'') [10, 10],
      replace_with (re_openTag ''div'') [10],
      replace_with (re_closeTag ''div'') [10],
      replace_with (re_openTag ''blockquote'') ([10] @ js ''> ''),
      replace_with (re_closeTag ''blockquote'') [10, 10],
      replace_with (re_openTag ''li'') [8226, 32],
      replace_with (re_closeTag ''li'') [10],
      replace_with re_br [10],
      replace_with re_pageBreakDiv ([10] @ js ''[PAGE BREAK]'' @ [10]),
      replace_with re_anyTag (js '' '')]"

definition fallbackText :: "jsstring \<Rightarrow> jsstring" where
  "fallbackText fileContent =
     pipe fileContent (fallbackMarkupSteps @ entitySteps @ whitespaceSteps)"

subsection \<open>The fallback scan\<close>

text \<open>\<^verbatim>\<open>/\.(html|xhtml|htm)$/i\<close>, and the filter both parsers apply to
  \<open>Object.keys(zip.files)\<close>. \<open>sort()\<close> without a comparison function orders strings by
  code units, which is the lexicographic order of lists.\<close>

definition re_htmlExtCi :: regex where
  "re_htmlExtCi =
     re_lit (js ''.'')
       (re_grp (re_alt [re_lit_ci (js ''html''), re_lit_ci (js ''xhtml''), re_lit_ci (js ''htm'')])
          (\<lambda>g. re_eos (re_done [g])))"

definition isHtmlName :: "jsstring \<Rightarrow> bool" where
  "isHtmlName filename = (str_match re_htmlExtCi filename \<noteq> None)"

definition isFallbackFile :: "jsstring \<Rightarrow> bool" where
  "isFallbackFile filename =
     (isHtmlName filename
      \<and> \<not> startsWith filename (js ''__MACOSX'')
      \<and> \<not> str_includes filename (js ''jacket'')
      \<and> \<not> str_includes filename (js ''cover'')
      \<and> \<not> str_includes filename (js ''titlepage''))"

definition htmlFilesOf :: "nat \<Rightarrow> zip \<Rightarrow> jsstring list" where
  "htmlFilesOf limit z = take limit (sort (filter isFallbackFile (zipKeys z)))"

subsection \<open>The service (epubParserService.ts)\<close>

record EPUBContent =
  ec_title :: jsstring
  ec_author :: jsstring
  ec_content :: jsstring

text \<open>\<open>a || b\<close> on strings: the empty string is falsy.\<close>

definition orElse :: "jsstring \<Rightarrow> jsstring \<Rightarrow> jsstring" where
  "orElse a b = (if a = [] then b else a)"

definition svc_manifestItem :: "manifest \<Rightarrow> jsstring \<Rightarrow> manifest" where
  "svc_manifestItem m item =
     (case str_match (re_attr ''id'') item of
        None \<Rightarrow> m
      | Some idMatch \<Rightarrow>
          (case str_match (re_attr ''href'') item of
             None \<Rightarrow> m
           | Some hrefMatch \<Rightarrow> setProp m (match_group idMatch 1) (match_group hrefMatch 1)))"

definition svc_structureOf :: "jsstring \<Rightarrow> jsstring \<Rightarrow> epubStructure" where
  "svc_structureOf opfPath opfFile =
     (let title = (case str_match (re_dc ''title'') opfFile of
                     Some titleMatch \<Rightarrow> match_group titleMatch 1
                   | None \<Rightarrow> js ''Unknown Title'');
          author = (case str_match (re_dc ''creator'') opfFile of
                      Some authorMatch \<Rightarrow> match_group authorMatch 1
                    | None \<Rightarrow> js ''Unknown Author'');
          opfDir = substring0 opfPath (lastIndexOf opfPath (ch CHR ''/'') + 1)
      in \<lparr>st_metadata = \<lparr>md_title = title, md_author = author, opfDir = opfDir\<rparr>,
          manifestItems = foldl svc_manifestItem Map.empty (match_g re_item opfFile),
          spineIds = spineIdsOf opfFile,
          tocPath = None\<rparr>)"

definition svc_extractEPUBStructure :: "zip \<Rightarrow> error + epubStructure" where
  "svc_extractEPUBStructure z =
     (case findOpf z of
        Inl e \<Rightarrow> Inl e
      | Inr (opfPath, opfFile) \<Rightarrow> Inr (svc_structureOf opfPath opfFile))"

definition appendText :: "jsstring \<Rightarrow> jsstring \<Rightarrow> jsstring" where
  "appendText accumulatedContent textContent =
     accumulatedContent @ (if textContent = [] then [] else textContent @ [10, 10])"

function processFilesSequentially ::
  "zip \<Rightarrow> metadata \<Rightarrow> manifest \<Rightarrow> jsstring list \<Rightarrow> nat \<Rightarrow> jsstring \<Rightarrow> EPUBContent" where
  "processFilesSequentially z md mf ids index accumulatedContent =
     (if index \<ge> length ids
      then \<lparr>ec_title = md_title md, ec_author = md_author md,
            ec_content = orElse (trim accumulatedContent) (js ''No readable content found'')\<rparr>
      else
        (let filePath = getProp mf (ids ! index) in
         if \<not> truthy filePath
         then processFilesSequentially z md mf ids (index + 1) accumulatedContent
         else
           (case readText z (opfDir md @ toStr filePath) of
              Rejected \<Rightarrow>
                processFilesSequentially z md mf ids (index + 1) accumulatedContent
            | Absent \<Rightarrow>
                processFilesSequentially z md mf ids (index + 1)
                  (appendText accumulatedContent [])
            | Content fileContent \<Rightarrow>
                processFilesSequentially z md mf ids (index + 1)
                  (appendText accumulatedContent
                     (if fileContent = [] then [] else htmlToText fileContent)))))"
  by pat_completeness auto
termination
  by (relation "measure (\<lambda>(z, md, mf, ids, index, acc). length ids - index)") auto

declare processFilesSequentially.simps [simp del]

text \<open>The recursion over the fallback files has no \<open>catchError\<close>: a rejected read ends
  the parse with that error.\<close>

function processHtmlFilesSequentially ::
  "zip \<Rightarrow> metadata \<Rightarrow> jsstring list \<Rightarrow> nat \<Rightarrow> jsstring \<Rightarrow> error + EPUBContent" where
  "processHtmlFilesSequentially z md htmlFiles index accumulatedContent =
     (if index \<ge> length htmlFiles
      then Inr \<lparr>ec_title = md_title md, ec_author = md_author md,
                ec_content = orElse (trim accumulatedContent) (js ''No readable content found'')\<rparr>
      else
        (case readText z (htmlFiles ! index) of
           Rejected \<Rightarrow> Inl ReadFailed
         | Absent \<Rightarrow>
             processHtmlFilesSequentially z md htmlFiles (index + 1)
               (appendText accumulatedContent [])
         | Content fileContent \<Rightarrow>
             processHtmlFilesSequentially z md htmlFiles (index + 1)
               (appendText accumulatedContent
                  (if fileContent = [] then [] else htmlToText fileContent))))"
  by pat_completeness auto
termination
  by (relation "measure (\<lambda>(z, md, fs, index, acc). length fs - index)") auto

declare processHtmlFilesSequentially.simps [simp del]

definition fallbackExtraction :: "zip \<Rightarrow> metadata \<Rightarrow> error + EPUBContent" where
  "fallbackExtraction z md =
     (let htmlFiles = htmlFilesOf 10 z
      in if length htmlFiles = 0
         then Inr \<lparr>ec_title = md_title md, ec_author = md_author md,
                   ec_content = js ''No readable content found in EPUB file''\<rparr>
         else processHtmlFilesSequentially z md htmlFiles 0 [])"

definition processContent ::
  "zip \<Rightarrow> metadata \<Rightarrow> manifest \<Rightarrow> jsstring list \<Rightarrow> error + EPUBContent" where
  "processContent z md mf ids =
     (let maxFiles = 20;
          filesToProcess = take maxFiles ids
      in if length filesToProcess = 0 then fallbackExtraction z md
         else Inr (processFilesSequentially z md mf filesToProcess 0 []))"

definition svc_parseEPUB :: "zip \<Rightarrow> error + EPUBContent" where
  "svc_parseEPUB z =
     (case svc_extractEPUBStructure z of
        Inl e \<Rightarrow> Inl e
      | Inr st \<Rightarrow> processContent z (st_metadata st) (manifestItems st) (spineIds st))"

subsection \<open>The async parser (epubParser.ts)\<close>

text \<open>Its container, package, metadata, spine and manifest statements are those of the
  service. Its reads are awaited without a handler, so a rejected read ends the parse.
  The two \<open>for ... of\<close> loops add a text only when it is longer than ten code
  units.\<close>

definition keepText :: "jsstring \<Rightarrow> jsstring \<Rightarrow> jsstring" where
  "keepText fullContent textContent =
     (if textContent \<noteq> [] \<and> length textContent > 10
      then fullContent @ textContent @ [10, 10] else fullContent)"

fun spineLoop ::
  "zip \<Rightarrow> jsstring \<Rightarrow> manifest \<Rightarrow> jsstring list \<Rightarrow> jsstring \<Rightarrow> error + jsstring" where
  "spineLoop z dir mf [] fullContent = Inr fullContent"
| "spineLoop z dir mf (spineId # rest) fullContent =
     (let filePath = getProp mf spineId in
      if \<not> truthy filePath then spineLoop z dir mf rest fullContent
      else (case readText z (dir @ toStr filePath) of
              Rejected \<Rightarrow> Inl ReadFailed
            | Absent \<Rightarrow> spineLoop z dir mf rest fullContent
            | Content fileContent \<Rightarrow>
                if fileContent = [] then spineLoop z dir mf rest fullContent
                else spineLoop z dir mf rest
                       (keepText fullContent (spineText fileContent))))"

fun fallbackLoop :: "zip \<Rightarrow> jsstring list \<Rightarrow> jsstring \<Rightarrow> error + jsstring" where
  "fallbackLoop z [] fullContent = Inr fullContent"
| "fallbackLoop z (filename # rest) fullContent =
     (case readText z filename of
        Rejected \<Rightarrow> Inl ReadFailed
      | Absent \<Rightarrow> fallbackLoop z rest fullContent
      | Content fileContent \<Rightarrow>
          if fileContent = [] then fallbackLoop z rest fullContent
          else fallbackLoop z rest (keepText fullContent (fallbackText fileContent)))"

definition truncationNotice :: "nat \<Rightarrow> jsstring" where
  "truncationNotice n =
     [10, 10] @ js ''[Content truncated - showing first 20 chapters of '' @ showNat n
     @ js '' total chapters to improve performance]''"

definition fallbackNotice :: jsstring where
  "fallbackNotice =
     [10, 10] @ js ''[Content truncated for performance - showing first 15 HTML files]''"

fun joinWith :: "jsstring \<Rightarrow> jsstring list \<Rightarrow> jsstring" where
  "joinWith sep [] = []"
| "joinWith sep [x] = x"
| "joinWith sep (x # y # ys) = x @ sep @ joinWith sep (y # ys)"

definition fileListing :: "zip \<Rightarrow> jsstring" where
  "fileListing z =
     joinWith (js '', '') (take 20 (filter (\<lambda>name. \<not> suffix (js ''/'') name) (zipKeys z)))
     @ (if length (zipKeys z) > 20 then js ''...'' else [])"

definition spineExtraction ::
  "zip \<Rightarrow> jsstring \<Rightarrow> manifest \<Rightarrow> jsstring list \<Rightarrow> error + jsstring" where
  "spineExtraction z dir mf ids =
     (if length ids > 0
      then (case spineLoop z dir mf (take 20 ids) [] of
              Inl e \<Rightarrow> Inl e
            | Inr fullContent \<Rightarrow>
                Inr (if length ids > 20 then fullContent @ truncationNotice (length ids)
                     else fullContent))
      else Inr [])"

definition fallbackScan :: "zip \<Rightarrow> jsstring \<Rightarrow> error + jsstring" where
  "fallbackScan z fullContent =
     (if length (trim fullContent) < 500
      then (let htmlFiles = htmlFilesOf 15 z
            in case fallbackLoop z htmlFiles fullContent of
                 Inl e \<Rightarrow> Inl e
               | Inr fullContent' \<Rightarrow>
                   Inr (if length htmlFiles = 15
                           \<and> length (filter isHtmlName (zipKeys z)) > 15
                        then fullContent' @ fallbackNotice else fullContent'))
      else Inr fullContent)"

text \<open>\<open>parseEPUB\<close> of epubParser.ts, in two parts: the statements up to the manifest,
  which give the structure, and the rest of the function.\<close>

definition legacyContent :: "zip \<Rightarrow> epubStructure \<Rightarrow> error + EPUBContent" where
  "legacyContent z st =
     (case spineExtraction z (opfDir (st_metadata st)) (manifestItems st) (spineIds st) of
        Inl e \<Rightarrow> Inl e
      | Inr fullContent \<Rightarrow>
          (case fallbackScan z fullContent of
             Inl e \<Rightarrow> Inl e
           | Inr fullContent' \<Rightarrow>
               if trim fullContent' = [] then Inl (NoReadableContent (fileListing z))
               else Inr \<lparr>ec_title = md_title (st_metadata st),
                         ec_author = md_author (st_metadata st),
                         ec_content = trim fullContent'\<rparr>))"

definition legacy_parseEPUB :: "zip \<Rightarrow> error + EPUBContent" where
  "legacy_parseEPUB z =
     (case svc_extractEPUBStructure z of
        Inl e \<Rightarrow> Inl e
      | Inr st \<Rightarrow> legacyContent z st)"


section \<open>Auxiliary definitions and example archives\<close>

text \<open>What one spine id contributes in \<^const>\<open>processChaptersSequentially\<close>: the chapter
  parsed from the text of its content document, with its footnotes, when the manifest has
  a path for the id and the document has a text; otherwise nothing. The recursion is then a left fold of \<open>addItem\<close> over the
  remaining ids (lemma \<open>processChapters_foldl\<close> below).\<close>

definition spineItem ::
  "zip \<Rightarrow> metadata \<Rightarrow> manifest \<Rightarrow> jsstring \<Rightarrow>
   (EPUBChapter \<times> (jsstring \<rightharpoonup> jsstring)) option" where
  "spineItem z md mf spineId =
     (case getProp mf spineId of
        Str filePath \<Rightarrow>
          if filePath = [] then None
          else (case readText z (opfDir md @ filePath) of
                  Content fileContent \<Rightarrow>
                    if fileContent = [] then None
                    else Some (parseHTMLToStructuredContent fileContent spineId filePath)
                | Absent \<Rightarrow> None
                | Rejected \<Rightarrow> None)
      | Inherited t \<Rightarrow> None
      | Undefined \<Rightarrow> None)"

definition addItem ::
  "zip \<Rightarrow> metadata \<Rightarrow> manifest \<Rightarrow> EPUBChapter list \<times> (jsstring \<rightharpoonup> jsstring) \<Rightarrow>
   jsstring \<Rightarrow> EPUBChapter list \<times> (jsstring \<rightharpoonup> jsstring)" where
  "addItem z md mf acc spineId =
     (case spineItem z md mf spineId of
        None \<Rightarrow> acc
      | Some parsed \<Rightarrow> (fst acc @ [fst parsed], snd acc ++ snd parsed))"

definition finish ::
  "metadata \<Rightarrow> EPUBTableOfContents list \<Rightarrow> nat list \<Rightarrow>
   EPUBChapter list \<times> (jsstring \<rightharpoonup> jsstring) \<Rightarrow> EnhancedEPUBContent" where
  "finish md toc pbs acc =
     \<lparr>title = md_title md, author = md_author md, chapters = fst acc,
      tableOfContents = toc, footnotes = snd acc, pageBreaks = pbs\<rparr>"

text \<open>The path an item of the manifest records as \<open>tocPath\<close> when it is scanned, if
  any (the state before it does not matter, lemma \<open>scanManifestItem_snd\<close> below).\<close>

definition tocPathOfItem :: "jsstring \<Rightarrow> jsstring option" where
  "tocPathOfItem item = snd (scanManifestItem (Map.empty, None) item)"

text \<open>A small book: a container, a package document with a navigation document, an NCX
  and two chapters in the manifest, a spine of three ids of which \<open>c3\<close> has no manifest
  entry, and the first chapter carrying a page-break style.\<close>

definition exContainer :: jsstring where
  \<open>exContainer = js ''<rootfile full-path="OEBPS/content.opf"/>''\<close>

definition exOpf :: jsstring where
  \<open>exOpf =
     js ''<package><dc:title>Book</dc:title><manifest>''
     @ js ''<item id="nav" href="toc.xhtml" media-type="application/xhtml+xml"/>''
     @ js ''<item id="ncx" href="book.ncx" media-type="application/x-dtbncx+xml"/>''
     @ js ''<item id="c1" href="c1.xhtml" media-type="application/xhtml+xml"/>''
     @ js ''<item id="c2" href="c2.xhtml" media-type="application/xhtml+xml"/>''
     @ js ''</manifest><spine><itemref idref="c1"/><itemref idref="c3"/>''
     @ js ''<itemref idref="c2"/></spine></package>''\<close>

definition exArchive :: zip where
  \<open>exArchive =
     [(js ''META-INF/container.xml'', Data exContainer),
      (js ''OEBPS/content.opf'', Data exOpf),
      (js ''OEBPS/c1.xhtml'', Data (js ''<p style="page-break-before:always">Hi</p>'')),
      (js ''OEBPS/c2.xhtml'', Data (js ''<h1>Two</h1>''))]\<close>

definition exStructure :: epubStructure where
  "exStructure = structureOf (js ''OEBPS/content.opf'') exOpf"








text \<open>An archive without spine: three HTML entries and a cover page.\<close>

definition exScanOpf :: jsstring where
  "exScanOpf = js ''<package><manifest></manifest><spine></spine></package>''"

definition exScanArchive :: zip where
  \<open>exScanArchive =
     [(js ''META-INF/container.xml'', Data (js ''<rootfile full-path="content.opf"/>'')),
      (js ''content.opf'', Data exScanOpf),
      (js ''text/c.htm'', Data (js ''<p>Three</p>'')),
      (js ''cover.html'', Data (js ''<p>Cover</p>'')),
      (js ''text/b.XHTML'', Data (js ''<p>Two</p>'')),
      (js ''text/a.html'', Data (js ''<h1>One</h1>''))]\<close>

definition exScanStructure :: epubStructure where
  "exScanStructure = svc_structureOf (js ''content.opf'') exScanOpf"


text \<open>Pairs of neighbouring code units that the whitespace steps remove: two blanks, a
  blank after a newline, a blank before a newline.\<close>

definition noBlankPair :: "nat \<Rightarrow> nat \<Rightarrow> bool" where
  "noBlankPair a b = (\<not> (isBlank a \<and> isBlank b))"

definition noNlBlank :: "nat \<Rightarrow> nat \<Rightarrow> bool" where
  "noNlBlank a b = (\<not> (a = 10 \<and> isBlank b))"

definition noBlankNl :: "nat \<Rightarrow> nat \<Rightarrow> bool" where
  "noBlankNl a b = (\<not> (isBlank a \<and> b = 10))"









text \<open>What one file of the fallback scan adds to the text: in the service its text
  followed by two newlines unless it is empty, in the async parser the same when the text
  is longer than ten code units. A file that cannot be read ends both scans.\<close>

definition svcPiece :: "zip \<Rightarrow> jsstring \<Rightarrow> jsstring" where
  "svcPiece z filename =
     (case readText z filename of
        Content fileContent \<Rightarrow>
          if fileContent = [] \<or> htmlToText fileContent = [] then []
          else htmlToText fileContent @ [10, 10]
      | _ \<Rightarrow> [])"

definition asyncPiece :: "zip \<Rightarrow> jsstring \<Rightarrow> jsstring" where
  "asyncPiece z filename =
     (case readText z filename of
        Content fileContent \<Rightarrow>
          if fileContent \<noteq> [] \<and> length (fallbackText fileContent) > 10
          then fallbackText fileContent @ [10, 10] else []
      | _ \<Rightarrow> [])"

definition anyRejected :: "zip \<Rightarrow> jsstring list \<Rightarrow> bool" where
  "anyRejected z fs = list_ex (\<lambda>f. readText z f = Rejected) fs"

text \<open>The archive without spine again, with longer texts.\<close>

definition exChaptersArchive :: zip where
  \<open>exChaptersArchive =
     [(js ''META-INF/container.xml'', Data (js ''<rootfile full-path="content.opf"/>'')),
      (js ''content.opf'', Data exScanOpf),
      (js ''text/c.htm'', Data (js ''<p>Third chapter</p>'')),
      (js ''cover.html'', Data (js ''<p>A cover page with a long text</p>'')),
      (js ''text/b.XHTML'', Data (js ''<p>Second chapter</p>'')),
      (js ''text/a.html'', Data (js ''<h1>Chapter One</h1>''))]\<close>















section \<open>Properties of the structured parser\<close>

subsection \<open>The recursion over the spine as a fold\<close>

lemma processChapters_done:
  "length ids \<le> i \<Longrightarrow>
   processChaptersSequentially z md mf ids toc i aC aF aP = finish md toc aP (aC, aF)"
  by (subst processChaptersSequentially.simps) (simp add: finish_def)

lemma processChapters_step:
  "i < length ids \<Longrightarrow>
   processChaptersSequentially z md mf ids toc i aC aF aP =
     processChaptersSequentially z md mf ids toc (Suc i)
       (fst (addItem z md mf (aC, aF) (ids ! i)))
       (snd (addItem z md mf (aC, aF) (ids ! i))) aP"
  by (subst processChaptersSequentially.simps)
     (auto simp: addItem_def spineItem_def Let_def truthy_def toStr_def
           split: option.splits readres.splits jsval.splits)

lemma processChapters_foldl:
  "processChaptersSequentially z md mf ids toc i aC aF aP =
     finish md toc aP (foldl (addItem z md mf) (aC, aF) (drop i ids))"
proof (induction "length ids - i" arbitrary: i aC aF)
  case 0
  then show ?case by (simp add: processChapters_done)
next
  case (Suc n)
  then have lt: "i < length ids" and n: "n = length ids - Suc i"
    by simp_all
  have d: "drop i ids = ids ! i # drop (Suc i) ids"
    using lt by (simp add: Cons_nth_drop_Suc)
  show ?case
    using Suc.hyps(1)[OF n] by (simp add: processChapters_step[OF lt] d)
qed

lemma processEnhancedContent_foldl:
  "processEnhancedContent z md mf ids toc =
     finish md toc [] (foldl (addItem z md mf) ([], Map.empty) (take 25 ids))"
  by (cases "take 25 ids = []")
     (simp_all add: processEnhancedContent_def Let_def processChapters_foldl finish_def)

lemma addItem_chapters:
  "\<exists>cs. fst (addItem z md mf acc x) = fst acc @ cs
        \<and> map ch_id cs = (if spineItem z md mf x = None then [] else [x])"
  by (auto simp: addItem_def spineItem_def parseHTMLToStructuredContent_def Let_def
           split: option.splits readres.splits if_splits jsval.splits)

lemma foldl_addItem_chapters:
  "\<exists>cs. fst (foldl (addItem z md mf) acc xs) = fst acc @ cs
        \<and> map ch_id cs = filter (\<lambda>x. spineItem z md mf x \<noteq> None) xs"
proof (induction xs arbitrary: acc)
  case Nil
  then show ?case by simp
next
  case (Cons x xs)
  obtain c1 where c1: "fst (addItem z md mf acc x) = fst acc @ c1"
    "map ch_id c1 = (if spineItem z md mf x = None then [] else [x])"
    using addItem_chapters by blast
  obtain c2 where c2:
    "fst (foldl (addItem z md mf) (addItem z md mf acc x) xs)
       = fst (addItem z md mf acc x) @ c2"
    "map ch_id c2 = filter (\<lambda>x. spineItem z md mf x \<noteq> None) xs"
    using Cons.IH by blast
  show ?case
    by (rule exI[of _ "c1 @ c2"]) (simp add: c1 c2)
qed

lemma chapter_ids:
  "map ch_id (chapters (processEnhancedContent z md mf ids toc))
     = filter (\<lambda>x. spineItem z md mf x \<noteq> None) (take 25 ids)"
proof -
  obtain cs where
    "fst (foldl (addItem z md mf) ([], Map.empty) (take 25 ids)) = [] @ cs"
    "map ch_id cs = filter (\<lambda>x. spineItem z md mf x \<noteq> None) (take 25 ids)"
    using foldl_addItem_chapters[of z md mf "([], Map.empty)" "take 25 ids"] by auto
  then show ?thesis
    by (simp add: processEnhancedContent_foldl finish_def)
qed

lemma findOpf_exArchive:
  "findOpf exArchive = Inr (js ''OEBPS/content.opf'', exOpf)"
proof -
  have m: "str_match re_fullPath exContainer
             = Some [js ''full-path=\"OEBPS/content.opf\"'', js ''OEBPS/content.opf'']"
    by (simp add: exContainer_def re_fullPath_def re_grp_def re_plus_def notUnit_def
          re_done_def matched_def)
  have c: "exContainer \<noteq> []" "exOpf \<noteq> []"
    by (simp_all add: exContainer_def exOpf_def)
  show ?thesis
    by (simp add: findOpf_def readText_def exArchive_def m c match_group_def)
qed

subsection \<open>The chapter bound\<close>

text \<open>
  C1. When the container and the package document are found and read
  (\<^const>\<open>extractEPUBStructure\<close> succeeds), the structured parse succeeds, and its chapters
  are at most as many as the spine ids and at most 25: the chapter ids, in order, are a
  subsequence of the first 25 spine ids.
\<close>

theorem parse_chapters_bounded:
  assumes "extractEPUBStructure z = Inr st"
  shows "\<exists>r. parseEPUB z = Inr r
           \<and> length (chapters r) \<le> min (length (spineIds st)) 25
           \<and> subseq (map ch_id (chapters r)) (take 25 (spineIds st))"
proof -
  let ?r = "processEnhancedContent z (st_metadata st) (manifestItems st) (spineIds st)
              (parseTableOfContents z (st_metadata st) (tocPath st))"
  have p: "parseEPUB z = Inr ?r"
    using assms by (simp add: parseEPUB_def)
  have ids: "map ch_id (chapters ?r)
      = filter (\<lambda>x. spineItem z (st_metadata st) (manifestItems st) x \<noteq> None)
          (take 25 (spineIds st))"
    by (rule chapter_ids)
  have "length (map ch_id (chapters ?r)) \<le> length (take 25 (spineIds st))"
    unfolding ids by (rule length_filter_le)
  then have len: "length (chapters ?r) \<le> min (length (spineIds st)) 25"
    by simp
  have sub: "subseq (map ch_id (chapters ?r)) (take 25 (spineIds st))"
    unfolding ids by (rule subseq_filter_left)
  show ?thesis
    using p len sub by blast
qed

theorem parse_chapters_bounded_witness:
  "extractEPUBStructure exArchive = Inr exStructure
   \<and> (\<exists>r. parseEPUB exArchive = Inr r
          \<and> length (chapters r)
              \<le> min (length (spineIds exStructure)) 25
          \<and> subseq (map ch_id (chapters r))
              (take 25 (spineIds exStructure)))"
proof -
  have h: "extractEPUBStructure exArchive = Inr exStructure"
    by (simp add: extractEPUBStructure_def findOpf_exArchive exStructure_def)
  show ?thesis
    using h parse_chapters_bounded[OF h] by blast
qed

subsection \<open>The example book, evaluated\<close>

lemmas re_eval =
  re_grp_def re_plus_def re_opt_def re_eos_def re_done_def matched_def match_group_def
  notUnit_def isUnit_def anyUnit_def isQuote_def notQuote_def canon_def is1to6_def

lemma exOpf_items:
  "match_g re_item exOpf =
     [js ''<item id=\"nav\" href=\"toc.xhtml\" media-type=\"application/xhtml+xml\"/>'',
      js ''<item id=\"ncx\" href=\"book.ncx\" media-type=\"application/x-dtbncx+xml\"/>'',
      js ''<item id=\"c1\" href=\"c1.xhtml\" media-type=\"application/xhtml+xml\"/>'',
      js ''<item id=\"c2\" href=\"c2.xhtml\" media-type=\"application/xhtml+xml\"/>'',
      js ''<itemref idref=\"c1\"/>'', js ''<itemref idref=\"c3\"/>'',
      js ''<itemref idref=\"c2\"/>'']"
  by (simp add: exOpf_def re_item_def re_eval)

lemma exOpf_spine: "spineIdsOf exOpf = [js ''c1'', js ''c3'', js ''c2'']"
  by (simp add: exOpf_def spineIdsOf_def re_itemref_def re_idref_def re_eval
        List.map_filter_def)

lemmas scan_eval =
  scanManifestItem_def re_attr_def isTocItem_def str_includes_def toLowerCase_def
  lowerUnit_def sublist_code setProp_def

lemmas prop_eval = getProp_def objectPrototype_def nativeFunction_def truthy_def toStr_def

lemma exOpf_scan:
  "scanManifest (match_g re_item exOpf) =
     ([js ''nav'' \<mapsto> js ''toc.xhtml'', js ''ncx'' \<mapsto> js ''book.ncx'',
       js ''c1'' \<mapsto> js ''c1.xhtml'', js ''c2'' \<mapsto> js ''c2.xhtml''],
      Some (js ''book.ncx''))"
  unfolding exOpf_items by (simp add: scanManifest_def scan_eval re_eval)

lemma exOpf_structure:
  "spineIds exStructure = [js ''c1'', js ''c3'', js ''c2'']"
  "manifestItems exStructure (js ''c3'') = None"
  "manifestItems exStructure (js ''c1'')
     = Some (js ''c1.xhtml'')"
  "tocPath exStructure = Some (js ''book.ncx'')"
  "opfDir (st_metadata exStructure) = js ''OEBPS/''"
  by (simp_all add: exStructure_def structureOf_def Let_def exOpf_spine exOpf_scan
        substring0_def lastIndexOf_def)

lemma exOpf_lookup:
  "getProp (manifestItems exStructure) (js ''c1'') = Str (js ''c1.xhtml'')"
  "getProp (manifestItems exStructure) (js ''c2'') = Str (js ''c2.xhtml'')"
  "getProp (manifestItems exStructure) (js ''c3'') = Undefined"
  by (simp_all add: exStructure_def structureOf_def Let_def exOpf_scan prop_eval)

lemma extract_exArchive:
  "extractEPUBStructure exArchive = Inr exStructure"
  by (simp add: extractEPUBStructure_def findOpf_exArchive exStructure_def)

subsection \<open>A failing spine item\<close>

lemma take_25_split:
  assumes "length xs < 25"
  shows "take 25 (xs @ bad # ys) = xs @ bad # take (24 - length xs) ys"
proof -
  have "25 - length xs = Suc (24 - length xs)"
    using assms by arith
  then show ?thesis
    using assms by simp
qed

lemma take_25_rest:
  "length xs < 25 \<Longrightarrow>
   take 25 (xs @ take (24 - length xs) ys) = xs @ take (24 - length xs) ys"
  by simp

lemma take_25_over:
  assumes "\<not> length xs < 25"
  shows "take 25 (xs @ ys) = take 25 xs"
  using assms by simp

lemma foldl_addItem_fst:
  "fst (foldl (addItem z md mf) acc ids)
     = fst acc @ List.map_filter (\<lambda>i. map_option fst (spineItem z md mf i)) ids"
proof (induction ids arbitrary: acc)
  case Nil
  then show ?case by (simp add: List.map_filter_simps)
next
  case (Cons i ids)
  show ?case
  proof (cases "spineItem z md mf i")
    case None
    then have "addItem z md mf acc i = acc"
      by (simp add: addItem_def)
    then show ?thesis
      using None by (simp add: Cons.IH List.map_filter_simps)
  next
    case (Some a)
    then have "addItem z md mf acc i = (fst acc @ [fst a], snd acc ++ snd a)"
      by (simp add: addItem_def)
    then show ?thesis
      using Some by (simp add: Cons.IH List.map_filter_simps)
  qed
qed

lemma chapters_map_filter:
  "chapters (processEnhancedContent z md mf ids toc)
     = List.map_filter (\<lambda>i. map_option fst (spineItem z md mf i)) (take 25 ids)"
  by (simp add: processEnhancedContent_foldl finish_def foldl_addItem_fst)

lemma map_filter_append:
  "List.map_filter f (xs @ ys) = List.map_filter f xs @ List.map_filter f ys"
  by (simp add: List.map_filter_def)

lemma length_map_filter_le: "length (List.map_filter f xs) \<le> length xs"
  by (simp add: List.map_filter_def)

lemma map_filter_mem:
  "x \<in> set xs \<Longrightarrow> f x = Some y \<Longrightarrow> y \<in> set (List.map_filter f xs)"
  by (force simp: List.map_filter_def)

lemma spineItem_Some:
  assumes "getProp mf i = Str p" and "p \<noteq> []"
    and "readText z (opfDir md @ p) = Content c" and "c \<noteq> []"
  shows "spineItem z md mf i = Some (parseHTMLToStructuredContent c i p)"
  using assms by (simp add: spineItem_def)

text \<open>
  C2. A spine id for which the manifest has no path, or whose content document is absent,
  empty, cannot be read or cannot be parsed (the path is an inherited member, not a
  string), is passed over, wherever it stands in the spine, and extraction goes on with
  the ids after it. The parse succeeds. Its chapters are, in spine order, exactly the
  chapters parsed from the documents of the other ids among the first 25 (the id passed
  over counts as one of the 25): each of these ids whose document has a text gives its
  chapter. The whole result is the one these other ids alone give, and the chapters are
  fewer than the spine ids.
\<close>

theorem failing_item_skipped:
  assumes "extractEPUBStructure z = Inr st"
    and "spineIds st = xs @ bad # ys"
    and "\<not> truthy (getProp (manifestItems st) bad)
         \<or> (\<exists>t. getProp (manifestItems st) bad = Inherited t)
         \<or> readText z (opfDir (st_metadata st) @ toStr (getProp (manifestItems st) bad))
             = Absent
         \<or> readText z (opfDir (st_metadata st) @ toStr (getProp (manifestItems st) bad))
             = Rejected
         \<or> readText z (opfDir (st_metadata st) @ toStr (getProp (manifestItems st) bad))
             = Content []"
  shows "\<exists>r. parseEPUB z = Inr r
           \<and> chapters r =
               List.map_filter
                 (\<lambda>i. map_option fst (spineItem z (st_metadata st) (manifestItems st) i))
                 (take 25 xs @ take (24 - length xs) ys)
           \<and> (\<forall>i p c. i \<in> set (take 25 xs @ take (24 - length xs) ys)
                  \<and> getProp (manifestItems st) i = Str p \<and> p \<noteq> []
                  \<and> readText z (opfDir (st_metadata st) @ p) = Content c \<and> c \<noteq> []
                  \<longrightarrow> fst (parseHTMLToStructuredContent c i p) \<in> set (chapters r))
           \<and> r = processEnhancedContent z (st_metadata st) (manifestItems st)
                   (take 25 xs @ take (24 - length xs) ys)
                   (parseTableOfContents z (st_metadata st) (tocPath st))
           \<and> length (chapters r) < length (spineIds st)"
proof -
  let ?md = "st_metadata st" and ?mf = "manifestItems st"
  let ?toc = "parseTableOfContents z ?md (tocPath st)"
  let ?f = "addItem z ?md ?mf"
  let ?g = "\<lambda>i. map_option fst (spineItem z ?md ?mf i)"
  let ?others = "take 25 xs @ take (24 - length xs) ys"
  let ?r = "processEnhancedContent z ?md ?mf (xs @ bad # ys) ?toc"
  have none: "spineItem z ?md ?mf bad = None"
    using assms(3)
    by (auto simp: spineItem_def truthy_def toStr_def split: jsval.splits)
  then have skip: "?f acc bad = acc" for acc
    by (simp add: addItem_def)
  have p: "parseEPUB z = Inr ?r"
    using assms(1,2) by (simp add: parseEPUB_def)
  have t: "take 25 ?others = ?others"
    by simp
  have fold: "foldl ?f a (take 25 (xs @ bad # ys)) = foldl ?f a ?others" for a
  proof (cases "length xs < 25")
    case True
    then have "take 25 xs = xs"
      by simp
    then show ?thesis
      by (simp only: take_25_split[OF True] foldl_append foldl_Cons skip)
  next
    case False
    then have "take (24 - length xs) ys = []"
      by simp
    then show ?thesis
      by (simp only: take_25_over[OF False] append_Nil2)
  qed
  have eq: "?r = processEnhancedContent z ?md ?mf ?others ?toc"
    by (simp only: processEnhancedContent_foldl fold t)
  have ch: "chapters ?r = List.map_filter ?g ?others"
    by (simp only: eq chapters_map_filter t)
  have mem: "fst (parseHTMLToStructuredContent c i p) \<in> set (chapters ?r)"
    if "i \<in> set ?others" "getProp ?mf i = Str p" "p \<noteq> []"
      "readText z (opfDir ?md @ p) = Content c" "c \<noteq> []" for i p c
  proof -
    have "?g i = Some (fst (parseHTMLToStructuredContent c i p))"
      using spineItem_Some[OF that(2-5)] by simp
    then show ?thesis
      unfolding ch using that(1) by (rule map_filter_mem[rotated])
  qed
  have "length (chapters ?r) \<le> length ?others"
    unfolding ch by (rule length_map_filter_le)
  then have len: "length (chapters ?r) < length (spineIds st)"
    using assms(2) by simp
  show ?thesis
    using p ch mem eq len by (intro exI[of _ ?r]) blast
qed

lemma exArchive_items:
  "spineItem exArchive (st_metadata exStructure) (manifestItems exStructure) (js ''c1'')
     = Some (parseHTMLToStructuredContent (js ''<p style=\"page-break-before:always\">Hi</p>'')
         (js ''c1'') (js ''c1.xhtml''))"
  "spineItem exArchive (st_metadata exStructure) (manifestItems exStructure) (js ''c2'')
     = Some (parseHTMLToStructuredContent (js ''<h1>Two</h1>'') (js ''c2'') (js ''c2.xhtml''))"
  by (simp_all add: spineItem_def exOpf_lookup[simplified] exOpf_structure[simplified]
        readText_def exArchive_def)

lemma exArchive_titles:
  "ch_title (fst (parseHTMLToStructuredContent
       (js ''<p style=\"page-break-before:always\">Hi</p>'') (js ''c1'') (js ''c1.xhtml'')))
     = js ''c1''"
  "ch_title (fst (parseHTMLToStructuredContent (js ''<h1>Two</h1>'') (js ''c2'')
       (js ''c2.xhtml''))) = js ''Two''"
  by (simp_all add: parseHTMLToStructuredContent_def Let_def chapterTitleOf_def re_title_def
        re_heading_def re_dirPart_def re_htmlExt_def notLineTerminator_def re_eval)

lemma ch_id_parsed: "ch_id (fst (parseHTMLToStructuredContent html i p)) = i"
  by (simp add: parseHTMLToStructuredContent_def Let_def)

theorem failing_item_skipped_witness:
  "\<exists>r. parseEPUB exArchive = Inr r
     \<and> spineIds exStructure = [js ''c1'', js ''c3'', js ''c2'']
     \<and> chapters r =
         [fst (parseHTMLToStructuredContent
                 (js ''<p style=\"page-break-before:always\">Hi</p>'') (js ''c1'')
                 (js ''c1.xhtml'')),
          fst (parseHTMLToStructuredContent (js ''<h1>Two</h1>'') (js ''c2'')
                 (js ''c2.xhtml''))]
     \<and> map ch_id (chapters r) = [js ''c1'', js ''c2'']
     \<and> map ch_title (chapters r) = [js ''c1'', js ''Two'']
     \<and> length (chapters r) < length (spineIds exStructure)"
proof -
  have s: "spineIds exStructure = [js ''c1''] @ js ''c3'' # [js ''c2'']"
    by (simp add: exOpf_structure)
  have n: "\<not> truthy (getProp (manifestItems exStructure) (js ''c3''))
       \<or> (\<exists>t. getProp (manifestItems exStructure) (js ''c3'') = Inherited t)
       \<or> readText exArchive (opfDir (st_metadata exStructure)
              @ toStr (getProp (manifestItems exStructure) (js ''c3''))) = Absent
       \<or> readText exArchive (opfDir (st_metadata exStructure)
              @ toStr (getProp (manifestItems exStructure) (js ''c3''))) = Rejected
       \<or> readText exArchive (opfDir (st_metadata exStructure)
              @ toStr (getProp (manifestItems exStructure) (js ''c3''))) = Content []"
    by (rule disjI1) (simp only: exOpf_lookup(3) truthy_def jsval.case not_False_eq_True)
  obtain r where r: "parseEPUB exArchive = Inr r"
    and ch: "chapters r =
       List.map_filter
         (\<lambda>i. map_option fst
            (spineItem exArchive (st_metadata exStructure) (manifestItems exStructure) i))
         (take 25 [js ''c1''] @ take (24 - length [js ''c1'']) [js ''c2''])"
    and len: "length (chapters r) < length (spineIds exStructure)"
    using failing_item_skipped[OF extract_exArchive s n] by blast
  have ch': "chapters r =
         [fst (parseHTMLToStructuredContent
                 (js ''<p style=\"page-break-before:always\">Hi</p>'') (js ''c1'')
                 (js ''c1.xhtml'')),
          fst (parseHTMLToStructuredContent (js ''<h1>Two</h1>'') (js ''c2'')
                 (js ''c2.xhtml''))]"
    unfolding ch by (simp add: List.map_filter_simps exArchive_items[simplified])
  have ids: "map ch_id (chapters r) = [js ''c1'', js ''c2'']"
    unfolding ch' by (simp add: ch_id_parsed)
  have titles: "map ch_title (chapters r) = [js ''c1'', js ''Two'']"
    unfolding ch' by (simp add: exArchive_titles[simplified])
  show ?thesis
    using r s ch' ids titles len by (intro exI[of _ r]) simp
qed

subsection \<open>Page breaks\<close>

text \<open>
  C10. In the structured parser the \<open>pageBreaks\<close> of a result are always empty: the
  accumulator starts empty and is handed on unchanged, also when a chapter carries a
  page-break marker.
\<close>

theorem pageBreaks_always_empty:
  "pageBreaks (processEnhancedContent z md mf ids toc) = []
   \<and> (\<forall>r. parseEPUB z = Inr r \<longrightarrow> pageBreaks r = [])"
  by (auto simp: parseEPUB_def processEnhancedContent_foldl finish_def split: sum.splits)

lemma pageBreakBefore_chapter:
  "pageBreakBefore (fst (parseHTMLToStructuredContent html i p))
     = str_includes html (js ''page-break-before'')"
  by (simp add: parseHTMLToStructuredContent_def Let_def)

lemma exArchive_first_chapter:
  "spineItem exArchive (st_metadata exStructure)
     (manifestItems exStructure) (js ''c1'')
   = Some (parseHTMLToStructuredContent (js ''<p style=\"page-break-before:always\">Hi</p>'')
       (js ''c1'') (js ''c1.xhtml''))"
  by (rule exArchive_items(1))

theorem pageBreaks_always_empty_witness:
  "\<exists>r. parseEPUB exArchive = Inr r \<and> pageBreaks r = []
       \<and> pageBreakBefore (hd (chapters r))"
proof -
  let ?st = "exStructure"
  let ?r = "processEnhancedContent exArchive (st_metadata ?st) (manifestItems ?st)
              (spineIds ?st) (parseTableOfContents exArchive (st_metadata ?st) (tocPath ?st))"
  have p: "parseEPUB exArchive = Inr ?r"
    by (simp add: parseEPUB_def extract_exArchive)
  have e: "pageBreaks ?r = []"
    using pageBreaks_always_empty[of exArchive "st_metadata ?st" "manifestItems ?st"
        "spineIds ?st" "parseTableOfContents exArchive (st_metadata ?st) (tocPath ?st)"]
    by simp
  let ?f = "addItem exArchive (st_metadata ?st) (manifestItems ?st)"
  let ?c1 = "fst (parseHTMLToStructuredContent
                    (js ''<p style=\"page-break-before:always\">Hi</p>'') (js ''c1'')
                    (js ''c1.xhtml''))"
  have first: "fst (?f ([], Map.empty) (js ''c1'')) = [?c1]"
    by (simp only: addItem_def exArchive_first_chapter option.case fst_conv append_Nil)
  obtain cs where cs:
    "fst (foldl ?f (?f ([], Map.empty) (js ''c1'')) [js ''c3'', js ''c2''])
       = fst (?f ([], Map.empty) (js ''c1'')) @ cs"
    using foldl_addItem_chapters by blast
  have "chapters ?r = fst (foldl ?f ([], Map.empty) (take 25 (spineIds ?st)))"
    by (simp only: processEnhancedContent_foldl finish_def EnhancedEPUBContent.simps)
  also have "take 25 (spineIds ?st) = [js ''c1'', js ''c3'', js ''c2'']"
    by (simp add: exOpf_structure(1))
  also have "fst (foldl ?f ([], Map.empty) [js ''c1'', js ''c3'', js ''c2'']) = ?c1 # cs"
    by (subst foldl_Cons) (simp only: cs first append_Cons append_Nil)
  finally have "hd (chapters ?r) = ?c1"
    by simp
  moreover have "pageBreakBefore ?c1"
    by (simp add: pageBreakBefore_chapter str_includes_def sublist_code)
  ultimately have "pageBreakBefore (hd (chapters ?r))"
    by simp
  then show ?thesis
    using p e by blast
qed

subsection \<open>The table-of-contents document among the manifest items\<close>

lemma scanManifestItem_snd:
  "snd (scanManifestItem acc item)
     = (case tocPathOfItem item of None \<Rightarrow> snd acc | Some h \<Rightarrow> Some h)"
  by (simp add: tocPathOfItem_def scanManifestItem_def split: option.splits)

lemma foldl_scan_snoc:
  "snd (foldl scanManifestItem acc (items @ [item]))
     = (case tocPathOfItem item of
          None \<Rightarrow> snd (foldl scanManifestItem acc items)
        | Some h \<Rightarrow> Some h)"
  by (simp add: scanManifestItem_snd)

lemma tocPath_last_qualifying:
  "snd (foldl scanManifestItem (m, None) items)
     = (if filter (\<lambda>i. tocPathOfItem i \<noteq> None) items = [] then None
        else tocPathOfItem (last (filter (\<lambda>i. tocPathOfItem i \<noteq> None) items)))"
proof (induction items rule: rev_induct)
  case Nil
  then show ?case by simp
next
  case (snoc item items)
  show ?case
  proof (cases "tocPathOfItem item")
    case None
    then show ?thesis
      using snoc.IH by (simp add: foldl_scan_snoc del: foldl_append)
  next
    case (Some h)
    then show ?thesis
      by (simp add: foldl_scan_snoc del: foldl_append)
  qed
qed

text \<open>
  C6, as the code has it. An item sets \<open>tocPath\<close> when it has an \<open>id\<close>, an \<open>href\<close> and a
  \<open>media-type\<close> attribute and the media type is the NCX one or the id or the href
  contains \<open>toc\<close> in any case. The path recorded at the end of the scan is the href of the
  last such item in document order: an item qualifying later replaces it. The items
  scanned are the \<open><item ...>\<close> tags of the package document, in the order they stand there.
\<close>

theorem tocPath_last_match_wins:
  "tocPath (structureOf opfPath opfFile) = snd (scanManifest (match_g re_item opfFile))
   \<and> snd (scanManifest items)
     = (if filter (\<lambda>i. tocPathOfItem i \<noteq> None) items = [] then None
        else tocPathOfItem (last (filter (\<lambda>i. tocPathOfItem i \<noteq> None) items)))
   \<and> tocPathOfItem item
     = (case str_match (re_attr ''id'') item of
          None \<Rightarrow> None
        | Some idMatch \<Rightarrow>
            (case str_match (re_attr ''href'') item of
               None \<Rightarrow> None
             | Some hrefMatch \<Rightarrow>
                 (case str_match (re_attr ''media-type'') item of
                    None \<Rightarrow> None
                  | Some mediaTypeMatch \<Rightarrow>
                      if match_group mediaTypeMatch 1 = js ''application/x-dtbncx+xml''
                         \<or> sublist (js ''toc'') (toLowerCase (match_group idMatch 1))
                         \<or> sublist (js ''toc'') (toLowerCase (match_group hrefMatch 1))
                      then Some (match_group hrefMatch 1) else None)))"
proof (intro conjI)
  show "tocPath (structureOf opfPath opfFile) = snd (scanManifest (match_g re_item opfFile))"
    by (simp add: structureOf_def Let_def)
  show "snd (scanManifest items)
     = (if filter (\<lambda>i. tocPathOfItem i \<noteq> None) items = [] then None
        else tocPathOfItem (last (filter (\<lambda>i. tocPathOfItem i \<noteq> None) items)))"
    by (simp only: scanManifest_def tocPath_last_qualifying)
  show "tocPathOfItem item
     = (case str_match (re_attr ''id'') item of
          None \<Rightarrow> None
        | Some idMatch \<Rightarrow>
            (case str_match (re_attr ''href'') item of
               None \<Rightarrow> None
             | Some hrefMatch \<Rightarrow>
                 (case str_match (re_attr ''media-type'') item of
                    None \<Rightarrow> None
                  | Some mediaTypeMatch \<Rightarrow>
                      if match_group mediaTypeMatch 1 = js ''application/x-dtbncx+xml''
                         \<or> sublist (js ''toc'') (toLowerCase (match_group idMatch 1))
                         \<or> sublist (js ''toc'') (toLowerCase (match_group hrefMatch 1))
                      then Some (match_group hrefMatch 1) else None)))"
    by (simp add: tocPathOfItem_def scanManifestItem_def isTocItem_def str_includes_def
          split: option.splits)
qed

text \<open>The claim as written fails on the example book: its first qualifying item is the
  navigation document \<open>toc.xhtml\<close>, and the path recorded is that of the NCX, which comes
  later.\<close>

theorem tocPath_first_match_counterexample:
  "hd (filter (\<lambda>i. tocPathOfItem i \<noteq> None) (match_g re_item exOpf))
     = js ''<item id=\"nav\" href=\"toc.xhtml\" media-type=\"application/xhtml+xml\"/>''
   \<and> tocPathOfItem
       (js ''<item id=\"nav\" href=\"toc.xhtml\" media-type=\"application/xhtml+xml\"/>'')
     = Some (js ''toc.xhtml'')
   \<and> tocPath exStructure = Some (js ''book.ncx'')"
proof -
  have a: "tocPathOfItem
       (js ''<item id=\"nav\" href=\"toc.xhtml\" media-type=\"application/xhtml+xml\"/>'')
     = Some (js ''toc.xhtml'')"
    by (simp add: tocPathOfItem_def scan_eval re_eval)
  show ?thesis
    by (simp add: exOpf_items a[simplified] exOpf_structure)
qed

subsection \<open>The two formats of the table of contents\<close>









subsection \<open>Matching on a text with variable parts\<close>












lemma match_g_skip:
  assumes "\<And>c x. c \<in> set a \<Longrightarrow> re (c # x) = None"
  shows "match_g re (a @ s) = match_g re s"
  using assms by (induction a) simp_all



subsection \<open>The two formats on plainly written documents\<close>


subsection \<open>A navPoint\<close>














subsection \<open>The NCX document\<close>







subsection \<open>The navigation document\<close>


















subsection \<open>Blank elements\<close>

text \<open>The last statement of \<^const>\<open>parseHTMLElements\<close> filters the elements: none of
  those returned has an empty or blank content.\<close>

lemma parseHTMLElements_nonblank:
  "el \<in> set (parseHTMLElements html)
   \<Longrightarrow> el_content el \<noteq> [] \<and> trim (el_content el) \<noteq> []"
  by (auto simp: parseHTMLElements_def Let_def keepElement_def)

lemmas html_eval =
  parseHTMLElements_def split_re_def blockPattern_def re_body_def re_blockName_def
  processPart_def trim_def isWhiteSpace_def str_match_start_def re_isTag_def re_tagName_def
  tagNameUnit_def toLowerCase_def lowerUnit_def startsWith_def closeTag_def openTag_def
  createElementFromTag_def cleanContent_def replace_with_def re_literal_def re_anyTag_def
  re_spaces_def mkElement_def keepElement_def Let_def

text \<open>
  C9 at the input \<^verbatim>\<open><p>   </p>\<close>. The pattern the content is split by has a group for
  the tag name inside the group for the tag, and \<open>split\<close> splices every group into its
  result: the parts are \<open>\<close>, \<^verbatim>\<open><p>\<close>, \<open>p\<close>, three spaces, \<^verbatim>\<open></p>\<close>, \<open>p\<close>, \<open>\<close>. The tag
  names are then taken for text, and the blank paragraph gives two paragraphs \<open>p\<close>.
\<close>

theorem blank_paragraph_yields_elements:
  "split_re blockPattern (js ''<p>   </p>'')
     = [[], js ''<p>'', js ''p'', js ''   '', js ''</p>'', js ''p'', []]
   \<and> parseHTMLElements (js ''<p>   </p>'')
     = [\<lparr>el_type = Paragraph, el_level = None, el_content = js ''p''\<rparr>,
        \<lparr>el_type = Paragraph, el_level = None, el_content = js ''p''\<rparr>]"
  by (simp add: html_eval re_eval)


section \<open>Properties of the text parsers\<close>

subsection \<open>The files of the fallback scan\<close>

lemma re_lit_ci_eq:
  "re_lit_ci p k s =
     (if length p \<le> length s \<and> map canon (take (length p) s) = map canon p
      then k (drop (length p) s) else None)"
proof (induction p arbitrary: s)
  case Nil
  then show ?case by simp
next
  case (Cons a p)
  then show ?case by (cases s) auto
qed

lemma str_match_None:
  "str_match re s = None \<longleftrightarrow> (\<forall>t. suffix t s \<longrightarrow> re t = None)"
proof (induction s)
  case Nil
  then show ?case by (auto split: option.splits)
next
  case (Cons c s)
  then show ?case by (auto simp: suffix_Cons split: option.splits)
qed

lemma re_htmlExtCi_Some:
  "re_htmlExtCi t \<noteq> None \<longleftrightarrow>
     (\<exists>e. t = ch CHR ''.'' # e
          \<and> (map canon e = js ''HTML'' \<or> map canon e = js ''XHTML''
              \<or> map canon e = js ''HTM''))"
proof (cases t)
  case Nil
  then show ?thesis by (simp add: re_htmlExtCi_def)
next
  case (Cons c e)
  show ?thesis
    unfolding Cons
    by (auto simp: re_htmlExtCi_def re_grp_def re_eos_def re_done_def re_lit_ci_eq canon_def
          split: option.splits if_splits)
qed

lemma isHtmlName_iff:
  "isHtmlName f \<longleftrightarrow>
     (\<exists>e. suffix (ch CHR ''.'' # e) f
          \<and> (map canon e = js ''HTML'' \<or> map canon e = js ''XHTML''
              \<or> map canon e = js ''HTM''))"
  unfolding isHtmlName_def str_match_None re_htmlExtCi_Some[symmetric]
  by (metis not_None_eq re_htmlExtCi_Some)

lemmas text_eval =
  htmlToText_def pipe_def markupSteps_def entitySteps_def whitespaceSteps_def replace_with_def
  collapseBlanks_def stripAfterNewline_def stripBeforeNewline_def collapseNewlines_def
  re_block_def re_openTag_def re_closeTag_def re_hOpen_def re_hClose_def hMarker_def
  parseIntDigit_def re_br_def re_pageBreakDiv_def re_anyTag_def re_literal_def re_blanks_def
  re_nlBlanks_def re_blanksNl_def re_newlines3_def isBlank_def isNewline_def trim_def
  isWhiteSpace_def

lemma exScan_texts:
  "htmlToText (js ''<h1>One</h1>'') = js ''# One''"
  "htmlToText (js ''<p>Two</p>'') = js ''Two''"
  "htmlToText (js ''<p>Three</p>'') = js ''Three''"
  by (simp_all add: text_eval re_eval)

lemmas name_eval =
  htmlFilesOf_def zipKeys_def isFallbackFile_def isHtmlName_def re_htmlExtCi_def
  startsWith_def str_includes_def sublist_code

lemma exScan_files:
  "htmlFilesOf 10 exScanArchive = [js ''text/a.html'', js ''text/b.XHTML'', js ''text/c.htm'']"
  by (simp add: exScanArchive_def name_eval re_eval)

lemma exScan_structure:
  "svc_extractEPUBStructure exScanArchive = Inr exScanStructure"
  "spineIds exScanStructure = []"
  "md_title (st_metadata exScanStructure) = js ''Unknown Title''"
  "md_author (st_metadata exScanStructure) = js ''Unknown Author''"
  by (simp_all add: svc_extractEPUBStructure_def findOpf_def readText_def exScanArchive_def
        re_fullPath_def svc_structureOf_def Let_def spineIdsOf_def re_itemref_def re_dc_def
        exScanOpf_def List.map_filter_simps re_eval exScanStructure_def)

lemma exScan_parse:
  "svc_parseEPUB exScanArchive =
     Inr \<lparr>ec_title = js ''Unknown Title'', ec_author = js ''Unknown Author'',
          ec_content = js ''# One'' @ [10, 10] @ js ''Two'' @ [10, 10] @ js ''Three''\<rparr>"
proof -
  have r: "readText exScanArchive (js ''text/a.html'') = Content (js ''<h1>One</h1>'')"
    "readText exScanArchive (js ''text/b.XHTML'') = Content (js ''<p>Two</p>'')"
    "readText exScanArchive (js ''text/c.htm'') = Content (js ''<p>Three</p>'')"
    by (simp_all add: readText_def exScanArchive_def)
  show ?thesis
    by (simp add: svc_parseEPUB_def exScan_structure processContent_def Let_def
          fallbackExtraction_def exScan_files processHtmlFilesSequentially.simps
          r[simplified] exScan_texts[simplified] appendText_def orElse_def trim_def
          isWhiteSpace_def)
qed

lemmas chain_eval = text_eval spineText_def fallbackText_def fallbackMarkupSteps_def

lemma processHtmlFiles_done:
  "length fs \<le> i \<Longrightarrow>
   processHtmlFilesSequentially z md fs i acc =
     Inr \<lparr>ec_title = md_title md, ec_author = md_author md,
          ec_content = orElse (trim acc) (js ''No readable content found'')\<rparr>"
  by (subst processHtmlFilesSequentially.simps) simp

lemma processHtmlFiles_step:
  "i < length fs \<Longrightarrow>
   processHtmlFilesSequentially z md fs i acc =
     (if readText z (fs ! i) = Rejected then Inl ReadFailed
      else processHtmlFilesSequentially z md fs (Suc i) (acc @ svcPiece z (fs ! i)))"
  by (subst processHtmlFilesSequentially.simps)
     (auto simp: svcPiece_def appendText_def split: readres.splits)

lemma processHtmlFiles_all:
  "processHtmlFilesSequentially z md fs i acc =
     (if anyRejected z (drop i fs) then Inl ReadFailed
      else Inr \<lparr>ec_title = md_title md, ec_author = md_author md,
                ec_content = orElse (trim (acc @ concat (map (svcPiece z) (drop i fs))))
                               (js ''No readable content found'')\<rparr>)"
proof (induction "length fs - i" arbitrary: i acc)
  case 0
  then show ?case by (simp add: processHtmlFiles_done anyRejected_def)
next
  case (Suc n)
  then have lt: "i < length fs" and n: "n = length fs - Suc i"
    by simp_all
  have d: "drop i fs = fs ! i # drop (Suc i) fs"
    using lt by (simp add: Cons_nth_drop_Suc)
  show ?case
    using Suc.hyps(1)[OF n] by (simp add: processHtmlFiles_step[OF lt] d anyRejected_def)
qed

lemma fallbackLoop_all:
  "fallbackLoop z fs acc =
     (if anyRejected z fs then Inl ReadFailed
      else Inr (acc @ concat (map (asyncPiece z) fs)))"
proof (induction fs arbitrary: acc)
  case Nil
  then show ?case by (simp add: anyRejected_def)
next
  case (Cons f fs)
  show ?case
  proof (cases "readText z f")
    case Absent
    then have "asyncPiece z f = []"
      by (simp add: asyncPiece_def)
    then show ?thesis
      using Absent by (simp add: Cons.IH anyRejected_def)
  next
    case Rejected
    then show ?thesis
      by (simp add: anyRejected_def)
  next
    case (Content c)
    then have "asyncPiece z f
        = (if c \<noteq> [] \<and> length (fallbackText c) > 10 then fallbackText c @ [10, 10] else [])"
      by (simp add: asyncPiece_def)
    then show ?thesis
      using Content by (simp add: Cons.IH anyRejected_def keepText_def)
  qed
qed

lemma exChapters_files:
  "htmlFilesOf 15 exChaptersArchive = [js ''text/a.html'', js ''text/b.XHTML'', js ''text/c.htm'']"
  by (simp add: exChaptersArchive_def name_eval re_eval)

lemma exChapters_texts:
  "fallbackText (js ''<h1>Chapter One</h1>'') = js ''# Chapter One''"
  "fallbackText (js ''<p>Second chapter</p>'') = js ''Second chapter''"
  "fallbackText (js ''<p>Third chapter</p>'') = js ''Third chapter''"
  by (simp_all add: chain_eval re_eval)

lemma exChapters_structure:
  "svc_extractEPUBStructure exChaptersArchive = Inr exScanStructure"
  by (simp add: svc_extractEPUBStructure_def findOpf_def readText_def exChaptersArchive_def
        re_fullPath_def exScanStructure_def re_eval exScanOpf_def Let_def)

lemma exChapters_pieces:
  "asyncPiece exChaptersArchive (js ''text/a.html'') = js ''# Chapter One'' @ [10, 10]"
  "asyncPiece exChaptersArchive (js ''text/b.XHTML'') = js ''Second chapter'' @ [10, 10]"
  "asyncPiece exChaptersArchive (js ''text/c.htm'') = js ''Third chapter'' @ [10, 10]"
  "\<not> anyRejected exChaptersArchive [js ''text/a.html'', js ''text/b.XHTML'', js ''text/c.htm'']"
  by (simp_all add: asyncPiece_def anyRejected_def readText_def exChaptersArchive_def
        exChapters_texts[simplified])

lemma exChapters_parse:
  "legacy_parseEPUB exChaptersArchive =
     Inr \<lparr>ec_title = js ''Unknown Title'', ec_author = js ''Unknown Author'',
          ec_content = js ''# Chapter One'' @ [10, 10] @ js ''Second chapter'' @ [10, 10]
                       @ js ''Third chapter''\<rparr>"
  by (simp add: legacy_parseEPUB_def exChapters_structure legacyContent_def exScan_structure
        spineExtraction_def fallbackScan_def Let_def fallbackLoop_all exChapters_files
        exChapters_pieces[simplified] trim_def isWhiteSpace_def)

text \<open>
  C5, as the code has it. The fallback scan takes the entry names that end in \<open>.html\<close>,
  \<open>.xhtml\<close> or \<open>.htm\<close> in any case, do not start with \<open>__MACOSX\<close> and do not contain
  \<open>jacket\<close>, \<open>cover\<close> or \<open>titlepage\<close> as written (lower case), sorts them by code units and
  keeps the first \<open>n\<close>: 10 in the service, 15 in the async parser. The service enters the
  scan when the spine is empty, the async parser when the spine gave fewer than 500 code
  units. Both read exactly these files, in that order, and append what each adds (the
  async parser then its notice, when there were more than 15 HTML names); a file that
  cannot be read ends the parse. The archive without spine, with three HTML entries and
  \<open>cover.html\<close>, gives the three entries in sorted order, and their texts in that order,
  in both parsers.
\<close>

theorem fallback_files:
  "htmlFilesOf n z =
     take n (sort (filter
       (\<lambda>f. (\<exists>e. suffix (ch CHR ''.'' # e) f
                  \<and> (map canon e = js ''HTML'' \<or> map canon e = js ''XHTML''
                      \<or> map canon e = js ''HTM''))
            \<and> \<not> prefix (js ''__MACOSX'') f
            \<and> \<not> sublist (js ''jacket'') f
            \<and> \<not> sublist (js ''cover'') f
            \<and> \<not> sublist (js ''titlepage'') f)
       (zipKeys z)))
   \<and> sorted (htmlFilesOf n z) \<and> length (htmlFilesOf n z) \<le> n
   \<and> processContent z md mf [] = fallbackExtraction z md
   \<and> fallbackExtraction z md =
       (if htmlFilesOf 10 z = []
        then Inr \<lparr>ec_title = md_title md, ec_author = md_author md,
                  ec_content = js ''No readable content found in EPUB file''\<rparr>
        else if anyRejected z (htmlFilesOf 10 z) then Inl ReadFailed
        else Inr \<lparr>ec_title = md_title md, ec_author = md_author md,
                  ec_content =
                    orElse (trim (concat (map (svcPiece z) (htmlFilesOf 10 z))))
                      (js ''No readable content found'')\<rparr>)
   \<and> spineExtraction z dir mf [] = Inr []
   \<and> fallbackScan z fullContent =
       (if length (trim fullContent) < 500
        then if anyRejected z (htmlFilesOf 15 z) then Inl ReadFailed
             else Inr (fullContent @ concat (map (asyncPiece z) (htmlFilesOf 15 z))
                       @ (if length (htmlFilesOf 15 z) = 15
                             \<and> length (filter isHtmlName (zipKeys z)) > 15
                          then fallbackNotice else []))
        else Inr fullContent)
   \<and> htmlFilesOf 10 exScanArchive
       = [js ''text/a.html'', js ''text/b.XHTML'', js ''text/c.htm'']
   \<and> svc_parseEPUB exScanArchive =
       Inr \<lparr>ec_title = js ''Unknown Title'', ec_author = js ''Unknown Author'',
            ec_content = js ''# One'' @ [10, 10] @ js ''Two'' @ [10, 10] @ js ''Three''\<rparr>
   \<and> htmlFilesOf 15 exChaptersArchive
       = [js ''text/a.html'', js ''text/b.XHTML'', js ''text/c.htm'']
   \<and> legacy_parseEPUB exChaptersArchive =
       Inr \<lparr>ec_title = js ''Unknown Title'', ec_author = js ''Unknown Author'',
            ec_content = js ''# Chapter One'' @ [10, 10] @ js ''Second chapter'' @ [10, 10]
                         @ js ''Third chapter''\<rparr>"
proof -
  have "isFallbackFile =
       (\<lambda>f. (\<exists>e. suffix (ch CHR ''.'' # e) f
                  \<and> (map canon e = js ''HTML'' \<or> map canon e = js ''XHTML''
                      \<or> map canon e = js ''HTM''))
            \<and> \<not> prefix (js ''__MACOSX'') f
            \<and> \<not> sublist (js ''jacket'') f
            \<and> \<not> sublist (js ''cover'') f
            \<and> \<not> sublist (js ''titlepage'') f)"
    by (rule ext) (simp only: isFallbackFile_def isHtmlName_iff startsWith_def str_includes_def)
  then have a: "htmlFilesOf n z =
     take n (sort (filter
       (\<lambda>f. (\<exists>e. suffix (ch CHR ''.'' # e) f
                  \<and> (map canon e = js ''HTML'' \<or> map canon e = js ''XHTML''
                      \<or> map canon e = js ''HTM''))
            \<and> \<not> prefix (js ''__MACOSX'') f
            \<and> \<not> sublist (js ''jacket'') f
            \<and> \<not> sublist (js ''cover'') f
            \<and> \<not> sublist (js ''titlepage'') f)
       (zipKeys z)))"
    by (simp only: htmlFilesOf_def)
  have b: "sorted (htmlFilesOf n z)"
    by (simp add: htmlFilesOf_def sorted_wrt_take)
  have c: "length (htmlFilesOf n z) \<le> n"
    by (simp add: htmlFilesOf_def)
  have d0: "processContent z md mf [] = fallbackExtraction z md"
    by (simp add: processContent_def)
  have d: "fallbackExtraction z md =
       (if htmlFilesOf 10 z = []
        then Inr \<lparr>ec_title = md_title md, ec_author = md_author md,
                  ec_content = js ''No readable content found in EPUB file''\<rparr>
        else if anyRejected z (htmlFilesOf 10 z) then Inl ReadFailed
        else Inr \<lparr>ec_title = md_title md, ec_author = md_author md,
                  ec_content =
                    orElse (trim (concat (map (svcPiece z) (htmlFilesOf 10 z))))
                      (js ''No readable content found'')\<rparr>)"
    by (simp add: fallbackExtraction_def Let_def processHtmlFiles_all)
  have e0: "spineExtraction z dir mf [] = Inr []"
    by (simp add: spineExtraction_def)
  have e: "fallbackScan z fullContent =
       (if length (trim fullContent) < 500
        then if anyRejected z (htmlFilesOf 15 z) then Inl ReadFailed
             else Inr (fullContent @ concat (map (asyncPiece z) (htmlFilesOf 15 z))
                       @ (if length (htmlFilesOf 15 z) = 15
                             \<and> length (filter isHtmlName (zipKeys z)) > 15
                          then fallbackNotice else []))
        else Inr fullContent)"
    by (simp add: fallbackScan_def Let_def fallbackLoop_all)
  show ?thesis
    using a b c d0 d e0 e exScan_files exScan_parse exChapters_files exChapters_parse by blast
qed

text \<open>The claim as written fails on two names: \<open>Cover.html\<close> contains \<open>cover\<close> when case
  is ignored, and \<open>x/__MACOSX/a.html\<close> contains \<open>__MACOSX\<close>; both are taken.\<close>

theorem fallback_files_counterexample:
  "htmlFilesOf 10 [(js ''Cover.html'', Data []), (js ''x/__MACOSX/a.html'', Data [])]
     = [js ''Cover.html'', js ''x/__MACOSX/a.html'']
   \<and> sublist (js ''cover'') (toLowerCase (js ''Cover.html''))
   \<and> sublist (js ''__MACOSX'') (js ''x/__MACOSX/a.html'')"
  by (simp add: name_eval re_eval toLowerCase_def lowerUnit_def)

subsection \<open>The whitespace steps, one by one\<close>

lemma re_star_done: "re_star P (re_done caps) s = Some (caps, dropWhile P s)"
  by (induction s) (auto simp: re_done_def)

lemma re_star_nl:
  "re_star isBlank (re_lit [10] (re_done [])) s =
     (case dropWhile isBlank s of [] \<Rightarrow> None | d # r \<Rightarrow> if d = 10 then Some ([], r) else None)"
  by (induction s) (auto simp: re_done_def isBlank_def split: list.splits)

lemma set_tl_sub: "set (tl xs) \<subseteq> set xs"
  by (cases xs) auto

lemma length_tl_dropWhile: "length (tl (dropWhile P xs)) \<le> length xs"
  by (metis diff_le_self le_trans length_dropWhile_le length_tl)

lemma collapseBlanks_Nil [simp]: "collapseBlanks [] = []"
  by (simp add: collapseBlanks_def replace_with_def)

lemma collapseBlanks_Cons:
  "collapseBlanks (c # cs) =
     (if isBlank c then 32 # collapseBlanks (dropWhile isBlank cs) else c # collapseBlanks cs)"
  by (simp add: collapseBlanks_def replace_with_def re_blanks_def re_plus_def re_star_done
        length_dropWhile_le)

lemma stripAfterNewline_Nil [simp]: "stripAfterNewline [] = []"
  by (simp add: stripAfterNewline_def replace_with_def)

lemma stripAfterNewline_Cons:
  "stripAfterNewline (c # cs) =
     (if c = 10 \<and> cs \<noteq> [] \<and> isBlank (hd cs)
      then 10 # stripAfterNewline (dropWhile isBlank cs) else c # stripAfterNewline cs)"
proof (cases cs)
  case Nil
  then show ?thesis
    by (simp add: stripAfterNewline_def replace_with_def re_nlBlanks_def re_plus_def)
next
  case (Cons b r)
  have "length (dropWhile isBlank r) \<le> Suc (length r)"
    by (rule le_trans[OF length_dropWhile_le]) simp
  then show ?thesis
    unfolding Cons
    by (simp add: stripAfterNewline_def replace_with_def re_nlBlanks_def re_plus_def
          re_star_done)
qed

lemma stripBeforeNewline_Nil [simp]: "stripBeforeNewline [] = []"
  by (simp add: stripBeforeNewline_def replace_with_def)

lemma stripBeforeNewline_Cons:
  "stripBeforeNewline (c # cs) =
     (if isBlank c \<and> dropWhile isBlank cs \<noteq> [] \<and> hd (dropWhile isBlank cs) = 10
      then 10 # stripBeforeNewline (tl (dropWhile isBlank cs))
      else c # stripBeforeNewline cs)"
proof (cases "dropWhile isBlank cs")
  case Nil
  show ?thesis
    by (simp add: stripBeforeNewline_def replace_with_def re_blanksNl_def re_plus_def
          re_star_nl Nil)
next
  case (Cons d r)
  have "length (tl (dropWhile isBlank cs)) \<le> length cs"
    by (rule length_tl_dropWhile)
  then have "length r \<le> length cs"
    by (simp add: Cons)
  then show ?thesis
    by (simp add: stripBeforeNewline_def replace_with_def re_blanksNl_def re_plus_def
          re_star_nl Cons)
qed

lemma collapseNewlines_Nil [simp]: "collapseNewlines [] = []"
  by (simp add: collapseNewlines_def replace_with_def)

lemma collapseNewlines_Cons:
  "collapseNewlines (c # cs) =
     (if c = 10 \<and> take 2 cs = [10, 10]
      then 10 # 10 # collapseNewlines (dropWhile isNewline (drop 2 cs))
      else c # collapseNewlines cs)"
proof (cases cs)
  case Nil
  then show ?thesis
    by (simp add: collapseNewlines_def replace_with_def re_newlines3_def)
next
  case c1: (Cons d ds)
  show ?thesis
  proof (cases ds)
    case Nil
    then show ?thesis
      unfolding c1 by (simp add: collapseNewlines_def replace_with_def re_newlines3_def)
  next
    case c2: (Cons e es)
    have "length (dropWhile isNewline es) \<le> Suc (Suc (length es))"
      by (rule le_trans[OF length_dropWhile_le]) simp
    then show ?thesis
      unfolding c1 c2
      by (simp add: collapseNewlines_def replace_with_def re_newlines3_def re_star_done)
  qed
qed

subsection \<open>Heads\<close>

lemma collapseBlanks_hd:
  "collapseBlanks s = [] \<longleftrightarrow> s = []"
  "s \<noteq> [] \<Longrightarrow> hd (collapseBlanks s) = (if isBlank (hd s) then 32 else hd s)"
  by (cases s; simp add: collapseBlanks_Cons)+

lemma stripAfterNewline_hd:
  "stripAfterNewline s = [] \<longleftrightarrow> s = []"
  "hd (stripAfterNewline s) = hd s"
  by (cases s; simp add: stripAfterNewline_Cons)+

lemma stripBeforeNewline_hd:
  "stripBeforeNewline s = [] \<longleftrightarrow> s = []"
  "hd (stripBeforeNewline s) = hd s \<or> hd (stripBeforeNewline s) = 10"
  by (cases s; simp add: stripBeforeNewline_Cons)+

lemma collapseNewlines_hd:
  "collapseNewlines s = [] \<longleftrightarrow> s = []"
  "hd (collapseNewlines s) = hd s"
  by (cases s; simp add: collapseNewlines_Cons)+

lemma hd_dropWhile_not: "dropWhile P xs \<noteq> [] \<Longrightarrow> \<not> P (hd (dropWhile P xs))"
  by (rule hd_dropWhile)

subsection \<open>What each step establishes and preserves\<close>

lemma collapseBlanks_set: "set (collapseBlanks s) \<subseteq> insert 32 (set s - {9})"
proof (induction s rule: length_induct)
  case (1 s)
  show ?case
  proof (cases s)
    case Nil
    then show ?thesis by simp
  next
    case (Cons c cs)
    have a: "set (collapseBlanks (dropWhile isBlank cs))
               \<subseteq> insert 32 (set (dropWhile isBlank cs) - {9})"
      using 1 Cons by (simp add: le_imp_less_Suc length_dropWhile_le)
    have b: "set (collapseBlanks cs) \<subseteq> insert 32 (set cs - {9})"
      using 1 Cons by simp
    have c: "set (dropWhile isBlank cs) \<subseteq> set cs"
      by (rule set_dropWhileD[THEN subsetI]) 
    show ?thesis
      using a b c by (auto simp: Cons collapseBlanks_Cons isBlank_def)
  qed
qed

lemma collapseBlanks_pairs: "successively noBlankPair (collapseBlanks s)"
proof (induction s rule: length_induct)
  case (1 s)
  show ?case
  proof (cases s)
    case Nil
    then show ?thesis by simp
  next
    case (Cons c cs)
    show ?thesis
    proof (cases "isBlank c")
      case True
      define t where "t = dropWhile isBlank cs"
      have eq: "collapseBlanks s = 32 # collapseBlanks t"
        using True by (simp add: Cons collapseBlanks_Cons t_def)
      have ih: "successively noBlankPair (collapseBlanks t)"
        using 1 Cons by (simp add: le_imp_less_Suc length_dropWhile_le t_def)
      have nb: "t \<noteq> [] \<Longrightarrow> \<not> isBlank (hd t)"
        unfolding t_def by (rule hd_dropWhile)
      have "collapseBlanks t \<noteq> [] \<Longrightarrow> \<not> isBlank (hd (collapseBlanks t))"
        using nb by (simp add: collapseBlanks_hd)
      then show ?thesis
        using ih by (auto simp: eq successively_Cons noBlankPair_def)
    next
      case False
      have ih: "successively noBlankPair (collapseBlanks cs)"
        using 1 Cons by simp
      show ?thesis
        using False ih
        by (auto simp: Cons collapseBlanks_Cons successively_Cons noBlankPair_def)
    qed
  qed
qed

lemma successively_suffix: "successively R (xs @ ys) \<Longrightarrow> successively R ys"
  by (simp add: successively_append_iff)

lemma successively_dropWhile: "successively R xs \<Longrightarrow> successively R (dropWhile P xs)"
  by (metis successively_suffix takeWhile_dropWhile_id)

lemma stripAfterNewline_set: "set (stripAfterNewline s) \<subseteq> set s"
proof (induction s rule: length_induct)
  case (1 s)
  show ?case
  proof (cases s)
    case Nil
    then show ?thesis by simp
  next
    case (Cons c cs)
    define t where "t = dropWhile isBlank cs"
    have a: "set (stripAfterNewline t) \<subseteq> set t"
      using 1 Cons by (simp add: le_imp_less_Suc length_dropWhile_le t_def)
    have b: "set (stripAfterNewline cs) \<subseteq> set cs"
      using 1 Cons by simp
    have c: "set t \<subseteq> set cs"
      unfolding t_def by (rule set_dropWhileD[THEN subsetI])
    have "stripAfterNewline s = 10 # stripAfterNewline t \<and> c = 10
          \<or> stripAfterNewline s = c # stripAfterNewline cs"
      by (simp add: Cons stripAfterNewline_Cons t_def)
    then show ?thesis
      using a b c by (auto simp: Cons)
  qed
qed

lemma stripAfterNewline_pres:
  assumes "\<And>x. R 10 x"
  shows "successively R s \<Longrightarrow> successively R (stripAfterNewline s)"
proof (induction s rule: length_induct)
  case (1 s)
  show ?case
  proof (cases s)
    case Nil
    then show ?thesis by simp
  next
    case (Cons c cs)
    define t where "t = dropWhile isBlank cs"
    have st: "successively R t"
      using 1(2) unfolding t_def Cons
      by (intro successively_dropWhile) (auto simp: successively_Cons)
    have a: "successively R (stripAfterNewline t)"
      using 1(1) Cons st by (simp add: le_imp_less_Suc length_dropWhile_le t_def)
    have scs: "successively R cs"
      using 1(2) by (auto simp: Cons successively_Cons)
    have b: "successively R (stripAfterNewline cs)"
      using 1(1) Cons scs by simp
    have "stripAfterNewline s = 10 # stripAfterNewline t
          \<or> stripAfterNewline s = c # stripAfterNewline cs"
      by (simp add: Cons stripAfterNewline_Cons t_def)
    then show ?thesis
    proof
      assume "stripAfterNewline s = 10 # stripAfterNewline t"
      then show ?thesis
        using a assms by (simp add: successively_Cons)
    next
      assume "stripAfterNewline s = c # stripAfterNewline cs"
      then show ?thesis
        using b 1(2) by (auto simp: Cons successively_Cons stripAfterNewline_hd)
    qed
  qed
qed

lemma stripAfterNewline_pairs: "successively noNlBlank (stripAfterNewline s)"
proof (induction s rule: length_induct)
  case (1 s)
  show ?case
  proof (cases s)
    case Nil
    then show ?thesis by simp
  next
    case (Cons c cs)
    define t where "t = dropWhile isBlank cs"
    have a: "successively noNlBlank (stripAfterNewline t)"
      using 1 Cons by (simp add: le_imp_less_Suc length_dropWhile_le t_def)
    have b: "successively noNlBlank (stripAfterNewline cs)"
      using 1 Cons by simp
    have nb: "t \<noteq> [] \<Longrightarrow> \<not> isBlank (hd t)"
      unfolding t_def by (rule hd_dropWhile)
    show ?thesis
    proof (cases "c = 10 \<and> cs \<noteq> [] \<and> isBlank (hd cs)")
      case True
      have "stripAfterNewline s = 10 # stripAfterNewline t"
        unfolding Cons t_def by (subst stripAfterNewline_Cons) (rule if_P[OF True])
      then show ?thesis
        using a nb by (auto simp: successively_Cons stripAfterNewline_hd noNlBlank_def)
    next
      case False
      have "stripAfterNewline s = c # stripAfterNewline cs"
        unfolding Cons by (subst stripAfterNewline_Cons) (rule if_not_P[OF False])
      then show ?thesis
        using b False by (auto simp: successively_Cons stripAfterNewline_hd noNlBlank_def)
    qed
  qed
qed

lemma stripBeforeNewline_set: "set (stripBeforeNewline s) \<subseteq> insert 10 (set s)"
proof (induction s rule: length_induct)
  case (1 s)
  show ?case
  proof (cases s)
    case Nil
    then show ?thesis by simp
  next
    case (Cons c cs)
    define t where "t = tl (dropWhile isBlank cs)"
    have "length t < length s"
      unfolding t_def Cons using length_tl_dropWhile[of isBlank cs] by simp
    then have a: "set (stripBeforeNewline t) \<subseteq> insert 10 (set t)"
      using 1 by simp
    have b: "set (stripBeforeNewline cs) \<subseteq> insert 10 (set cs)"
      using 1 Cons by simp
    have "set t \<subseteq> set (dropWhile isBlank cs)"
      unfolding t_def by (rule set_tl_sub)
    moreover have "set (dropWhile isBlank cs) \<subseteq> set cs"
      by (rule set_dropWhileD[THEN subsetI])
    ultimately have c: "set t \<subseteq> set cs"
      by blast
    have "stripBeforeNewline s = 10 # stripBeforeNewline t
          \<or> stripBeforeNewline s = c # stripBeforeNewline cs"
      by (simp add: Cons stripBeforeNewline_Cons t_def)
    then show ?thesis
      using a b c by (auto simp: Cons)
  qed
qed

lemma stripBeforeNewline_pres:
  assumes "\<And>a. R a 10"
  shows "successively R s \<Longrightarrow> successively R (stripBeforeNewline s)"
proof (induction s rule: length_induct)
  case (1 s)
  show ?case
  proof (cases s)
    case Nil
    then show ?thesis by simp
  next
    case (Cons c cs)
    define d where "d = dropWhile isBlank cs"
    define t where "t = tl d"
    have scs: "successively R cs"
      using 1(2) by (auto simp: Cons successively_Cons)
    have sd: "successively R d"
      unfolding d_def using scs by (rule successively_dropWhile)
    have b: "successively R (stripBeforeNewline cs)"
      using 1(1) Cons scs by simp
    show ?thesis
    proof (cases "isBlank c \<and> d \<noteq> [] \<and> hd d = 10")
      case True
      then have dt: "d = 10 # t"
        by (cases d) (auto simp: t_def)
      have stt: "successively R t" and adj: "t \<noteq> [] \<Longrightarrow> R 10 (hd t)"
        using sd by (auto simp: dt successively_Cons)
      have "length t < length s"
        unfolding t_def d_def Cons using length_tl_dropWhile[of isBlank cs] by simp
      then have a: "successively R (stripBeforeNewline t)"
        using 1(1) stt by simp
      have eq: "stripBeforeNewline s = 10 # stripBeforeNewline t"
        unfolding Cons t_def d_def
        by (subst stripBeforeNewline_Cons) (rule if_P[OF True[unfolded d_def]])
      have "stripBeforeNewline t \<noteq> [] \<Longrightarrow> R 10 (hd (stripBeforeNewline t))"
        using adj assms stripBeforeNewline_hd[of t] by auto
      then show ?thesis
        using a by (auto simp: eq successively_Cons)
    next
      case False
      have eq: "stripBeforeNewline s = c # stripBeforeNewline cs"
        unfolding Cons
        by (subst stripBeforeNewline_Cons) (rule if_not_P[OF False[unfolded d_def]])
      have "stripBeforeNewline cs \<noteq> [] \<Longrightarrow> R c (hd (stripBeforeNewline cs))"
        using 1(2) assms stripBeforeNewline_hd[of cs] by (auto simp: Cons successively_Cons)
      then show ?thesis
        using b by (auto simp: eq successively_Cons)
    qed
  qed
qed

lemma stripBeforeNewline_hd_nl:
  assumes "isBlank c" and "cs \<noteq> []" and "hd (stripBeforeNewline cs) = 10"
  shows "dropWhile isBlank cs \<noteq> [] \<and> hd (dropWhile isBlank cs) = 10"
proof (cases cs)
  case Nil
  then show ?thesis using assms by simp
next
  case (Cons e es)
  show ?thesis
  proof (cases "isBlank e")
    case True
    then have "e \<noteq> 10"
      by (auto simp: isBlank_def)
    then show ?thesis
      using assms(3) True by (auto simp: Cons stripBeforeNewline_Cons split: if_splits)
  next
    case False
    then show ?thesis
      using assms(3) by (simp add: Cons stripBeforeNewline_Cons)
  qed
qed

lemma stripBeforeNewline_pairs: "successively noBlankNl (stripBeforeNewline s)"
proof (induction s rule: length_induct)
  case (1 s)
  show ?case
  proof (cases s)
    case Nil
    then show ?thesis by simp
  next
    case (Cons c cs)
    define d where "d = dropWhile isBlank cs"
    define t where "t = tl d"
    have b: "successively noBlankNl (stripBeforeNewline cs)"
      using 1 Cons by simp
    have "length t < length s"
      unfolding t_def d_def Cons using length_tl_dropWhile[of isBlank cs] by simp
    then have a: "successively noBlankNl (stripBeforeNewline t)"
      using 1 by simp
    show ?thesis
    proof (cases "isBlank c \<and> d \<noteq> [] \<and> hd d = 10")
      case True
      have eq: "stripBeforeNewline s = 10 # stripBeforeNewline t"
        unfolding Cons t_def d_def
        by (subst stripBeforeNewline_Cons) (rule if_P[OF True[unfolded d_def]])
      show ?thesis
        using a by (auto simp: eq successively_Cons noBlankNl_def isBlank_def)
    next
      case False
      have eq: "stripBeforeNewline s = c # stripBeforeNewline cs"
        unfolding Cons
        by (subst stripBeforeNewline_Cons) (rule if_not_P[OF False[unfolded d_def]])
      have "\<not> (isBlank c \<and> cs \<noteq> [] \<and> hd (stripBeforeNewline cs) = 10)"
        using False stripBeforeNewline_hd_nl[of c cs] by (auto simp: d_def)
      then show ?thesis
        using b by (auto simp: eq successively_Cons noBlankNl_def stripBeforeNewline_hd)
    qed
  qed
qed

lemma successively_drop: "successively R xs \<Longrightarrow> successively R (drop n xs)"
  by (metis append_take_drop_id successively_suffix)

lemma last_all_newline: "xs \<noteq> [] \<Longrightarrow> \<forall>x\<in>set xs. x = (10::nat) \<Longrightarrow> last xs = 10"
  by (induction xs) auto

lemma prefix_newline_hd: "prefix (10 # p) u \<Longrightarrow> u \<noteq> [] \<and> hd u = (10::nat)"
  by (cases u) auto

lemma collapseNewlines_set: "set (collapseNewlines s) \<subseteq> set s"
proof (induction s rule: length_induct)
  case (1 s)
  show ?case
  proof (cases s)
    case Nil
    then show ?thesis by simp
  next
    case (Cons c cs)
    define t where "t = dropWhile isNewline (drop 2 cs)"
    have "length t \<le> length cs"
      unfolding t_def by (rule le_trans[OF length_dropWhile_le]) simp
    then have a: "set (collapseNewlines t) \<subseteq> set t"
      using 1 Cons by simp
    have b: "set (collapseNewlines cs) \<subseteq> set cs"
      using 1 Cons by simp
    have c: "set t \<subseteq> set cs"
      unfolding t_def using set_dropWhileD set_drop_subset by fastforce
    have "collapseNewlines s = 10 # 10 # collapseNewlines t \<and> c = 10
          \<or> collapseNewlines s = c # collapseNewlines cs"
      by (simp add: Cons collapseNewlines_Cons t_def)
    then show ?thesis
      using a b c by (auto simp: Cons)
  qed
qed

lemma collapseNewlines_pres:
  assumes "R 10 10"
  shows "successively R s \<Longrightarrow> successively R (collapseNewlines s)"
proof (induction s rule: length_induct)
  case (1 s)
  show ?case
  proof (cases s)
    case Nil
    then show ?thesis by simp
  next
    case (Cons c cs)
    define t where "t = dropWhile isNewline (drop 2 cs)"
    have scs: "successively R cs"
      using 1(2) by (auto simp: Cons successively_Cons)
    have b: "successively R (collapseNewlines cs)"
      using 1(1) Cons scs by simp
    show ?thesis
    proof (cases "c = 10 \<and> take 2 cs = [10, 10]")
      case True
      have eq: "collapseNewlines s = 10 # 10 # collapseNewlines t"
        unfolding Cons t_def by (subst collapseNewlines_Cons) (rule if_P[OF True])
      define pre where "pre = c # take 2 cs @ takeWhile isNewline (drop 2 cs)"
      have s: "s = pre @ t"
        by (simp add: Cons pre_def t_def)
      have "\<forall>x\<in>set pre. x = 10"
        using True by (auto simp: pre_def isNewline_def dest: set_takeWhileD)
      then have lp: "last pre = 10"
        by (intro last_all_newline) (simp_all add: pre_def)
      have sp: "successively R (pre @ t)"
        using 1(2) s by simp
      have pne: "pre \<noteq> []"
        by (simp add: pre_def)
      have st: "successively R t" and adj: "t \<noteq> [] \<Longrightarrow> R 10 (hd t)"
        using sp lp pne by (auto simp: successively_append_iff)
      have "length t \<le> length cs"
        unfolding t_def by (rule le_trans[OF length_dropWhile_le]) simp
      then have a: "successively R (collapseNewlines t)"
        using 1(1) Cons st by simp
      show ?thesis
        using a adj assms by (auto simp: eq successively_Cons collapseNewlines_hd)
    next
      case False
      have eq: "collapseNewlines s = c # collapseNewlines cs"
        unfolding Cons by (subst collapseNewlines_Cons) (rule if_not_P[OF False])
      have adj: "cs \<noteq> [] \<Longrightarrow> R c (hd cs)"
        using 1(2) by (auto simp: Cons successively_Cons)
      show ?thesis
        unfolding eq using b adj by (auto simp: successively_Cons collapseNewlines_hd)
    qed
  qed
qed

lemma collapseNewlines_prefix2:
  assumes p: "prefix [10, 10] (collapseNewlines cs)"
  shows "take 2 cs = [10, 10]"
proof (cases cs)
  case Nil
  then show ?thesis using p by simp
next
  case (Cons d ds)
  show ?thesis
  proof (cases "d = 10 \<and> take 2 ds = [10, 10]")
    case True
    then show ?thesis
      by (cases ds) (auto simp: Cons)
  next
    case False
    have eq: "collapseNewlines cs = d # collapseNewlines ds"
      unfolding Cons by (subst collapseNewlines_Cons) (rule if_not_P[OF False])
    have "d = 10" and "prefix [10] (collapseNewlines ds)"
      using p by (simp_all add: eq)
    then have "d = 10" and "ds \<noteq> []" and "hd ds = 10"
      using prefix_newline_hd[of "[]" "collapseNewlines ds"]
      by (simp_all add: collapseNewlines_hd)
    then show ?thesis
      by (cases ds) (auto simp: Cons)
  qed
qed

lemma collapseNewlines_triple: "\<not> sublist [10, 10, 10] (collapseNewlines s)"
proof (induction s rule: length_induct)
  case (1 s)
  show ?case
  proof (cases s)
    case Nil
    then show ?thesis by simp
  next
    case (Cons c cs)
    define t where "t = dropWhile isNewline (drop 2 cs)"
    have "length t \<le> length cs"
      unfolding t_def by (rule le_trans[OF length_dropWhile_le]) simp
    then have a: "\<not> sublist [10, 10, 10] (collapseNewlines t)"
      using 1 Cons by simp
    have b: "\<not> sublist [10, 10, 10] (collapseNewlines cs)"
      using 1 Cons by simp
    show ?thesis
    proof (cases "c = 10 \<and> take 2 cs = [10, 10]")
      case True
      have eq: "collapseNewlines s = 10 # 10 # collapseNewlines t"
        unfolding Cons t_def by (subst collapseNewlines_Cons) (rule if_P[OF True])
      have "t \<noteq> [] \<Longrightarrow> hd t \<noteq> 10"
        unfolding t_def using hd_dropWhile[of isNewline "drop 2 cs"]
        by (simp add: isNewline_def)
      then have nh: "\<not> (collapseNewlines t \<noteq> [] \<and> hd (collapseNewlines t) = 10)"
        by (auto simp: collapseNewlines_hd)
      have "\<not> prefix [10] (collapseNewlines t)" and "\<not> prefix [10, 10] (collapseNewlines t)"
        using nh prefix_newline_hd by blast+
      then show ?thesis
        using a by (simp add: eq sublist_Cons_right)
    next
      case False
      have eq: "collapseNewlines s = c # collapseNewlines cs"
        unfolding Cons by (subst collapseNewlines_Cons) (rule if_not_P[OF False])
      have "\<not> (c = 10 \<and> prefix [10, 10] (collapseNewlines cs))"
        using False collapseNewlines_prefix2 by blast
      then show ?thesis
        using b by (simp add: eq sublist_Cons_right)
    qed
  qed
qed

subsection \<open>trim\<close>

lemma dropWhile_hd_id: "xs = [] \<or> \<not> P (hd xs) \<Longrightarrow> dropWhile P xs = xs"
  by (cases xs) auto

lemma trim_decomp: "\<exists>a b. s = a @ trim s @ b"
proof -
  define u where "u = dropWhile isWhiteSpace s"
  have "rev u = takeWhile isWhiteSpace (rev u) @ dropWhile isWhiteSpace (rev u)"
    by simp
  then have "rev (rev u)
      = rev (dropWhile isWhiteSpace (rev u)) @ rev (takeWhile isWhiteSpace (rev u))"
    by (metis rev_append)
  then have "u = trim s @ rev (takeWhile isWhiteSpace (rev u))"
    by (simp add: trim_def u_def)
  moreover have "s = takeWhile isWhiteSpace s @ u"
    by (simp add: u_def)
  ultimately show ?thesis
    by metis
qed

lemma trim_pres: "successively R s \<Longrightarrow> successively R (trim s)"
  by (metis trim_decomp successively_append_iff)

lemma trim_sublist: "sublist (trim s) s"
  using trim_decomp[of s] by (auto simp: sublist_def)

lemma trim_set: "set (trim s) \<subseteq> set s"
  using trim_sublist by (rule set_mono_sublist)

lemma trim_fixed:
  assumes "s = [] \<or> (\<not> isWhiteSpace (hd s) \<and> \<not> isWhiteSpace (last s))"
  shows "trim s = s"
proof (cases s)
  case Nil
  then show ?thesis by (simp add: trim_def)
next
  case (Cons c cs)
  then have h: "\<not> isWhiteSpace c" and l: "\<not> isWhiteSpace (last s)"
    using assms by auto
  have "dropWhile isWhiteSpace s = s"
    using h by (simp add: Cons)
  moreover have "dropWhile isWhiteSpace (rev s) = rev s"
  proof (rule dropWhile_hd_id)
    have "hd (rev s) = last s"
      using Cons by (simp add: hd_rev)
    then show "rev s = [] \<or> \<not> isWhiteSpace (hd (rev s))"
      using l by simp
  qed
  ultimately show ?thesis
    by (simp add: trim_def)
qed

lemma trim_ends:
  "trim s = [] \<or> (\<not> isWhiteSpace (hd (trim s)) \<and> \<not> isWhiteSpace (last (trim s)))"
proof -
  define a where "a = dropWhile isWhiteSpace s"
  define b where "b = dropWhile isWhiteSpace (rev a)"
  have t: "trim s = rev b"
    by (simp add: trim_def a_def b_def)
  have ha: "a \<noteq> [] \<Longrightarrow> \<not> isWhiteSpace (hd a)"
    unfolding a_def by (rule hd_dropWhile)
  have hb: "b \<noteq> [] \<Longrightarrow> \<not> isWhiteSpace (hd b)"
    unfolding b_def by (rule hd_dropWhile)
  have "b \<noteq> [] \<Longrightarrow> last b = hd a"
  proof -
    assume nb: "b \<noteq> []"
    have "rev a = takeWhile isWhiteSpace (rev a) @ b"
      by (simp add: b_def)
    then have "last (rev a) = last b"
      using nb by (metis last_appendR)
    moreover have "a \<noteq> []"
      using nb by (auto simp: b_def)
    ultimately show ?thesis
      by (simp add: last_rev)
  qed
  moreover have "b \<noteq> [] \<Longrightarrow> a \<noteq> []"
    by (auto simp: b_def)
  ultimately show ?thesis
    using ha hb by (auto simp: t hd_rev last_rev)
qed

lemma trim_idem: "trim (trim s) = trim s"
  by (rule trim_fixed) (rule trim_ends)

subsection \<open>Fixed points\<close>

lemma collapseBlanks_id:
  "9 \<notin> set s \<Longrightarrow> successively noBlankPair s \<Longrightarrow> collapseBlanks s = s"
proof (induction s)
  case Nil
  then show ?case by simp
next
  case (Cons c cs)
  have ih: "collapseBlanks cs = cs"
    using Cons by (auto simp: successively_Cons)
  show ?case
  proof (cases "isBlank c")
    case True
    then have c: "c = 32"
      using Cons.prems(1) by (auto simp: isBlank_def)
    have "cs = [] \<or> \<not> isBlank (hd cs)"
      using Cons.prems(2) True by (auto simp: successively_Cons noBlankPair_def)
    then have "dropWhile isBlank cs = cs"
      by (cases cs) auto
    then show ?thesis
      using True ih by (simp add: collapseBlanks_Cons c)
  next
    case False
    then show ?thesis
      using ih by (simp add: collapseBlanks_Cons)
  qed
qed

lemma stripAfterNewline_id: "successively noNlBlank s \<Longrightarrow> stripAfterNewline s = s"
proof (induction s)
  case Nil
  then show ?case by simp
next
  case (Cons c cs)
  have ih: "stripAfterNewline cs = cs"
    using Cons by (auto simp: successively_Cons)
  have n: "\<not> (c = 10 \<and> cs \<noteq> [] \<and> isBlank (hd cs))"
    using Cons.prems by (auto simp: successively_Cons noNlBlank_def)
  show ?case
    by (subst stripAfterNewline_Cons) (simp only: if_not_P[OF n] ih)
qed

lemma stripBeforeNewline_id:
  "successively noBlankPair s \<Longrightarrow> successively noBlankNl s \<Longrightarrow> stripBeforeNewline s = s"
proof (induction s)
  case Nil
  then show ?case by simp
next
  case (Cons c cs)
  have ih: "stripBeforeNewline cs = cs"
    using Cons by (auto simp: successively_Cons)
  have n: "\<not> (isBlank c \<and> dropWhile isBlank cs \<noteq> [] \<and> hd (dropWhile isBlank cs) = 10)"
  proof
    assume a: "isBlank c \<and> dropWhile isBlank cs \<noteq> [] \<and> hd (dropWhile isBlank cs) = 10"
    then have "cs = [] \<or> \<not> isBlank (hd cs)"
      using Cons.prems(1) by (auto simp: successively_Cons noBlankPair_def)
    then have d: "dropWhile isBlank cs = cs"
      by (cases cs) auto
    then have "cs \<noteq> []" and "hd cs = 10"
      using a by auto
    then show False
      using a Cons.prems(2) by (auto simp: successively_Cons noBlankNl_def)
  qed
  show ?case
    by (subst stripBeforeNewline_Cons) (simp only: if_not_P[OF n] ih)
qed

lemma collapseNewlines_id: "\<not> sublist [10, 10, 10] s \<Longrightarrow> collapseNewlines s = s"
proof (induction s)
  case Nil
  then show ?case by simp
next
  case (Cons c cs)
  have ih: "collapseNewlines cs = cs"
    using Cons by (simp add: sublist_Cons_right)
  have n: "\<not> (c = 10 \<and> take 2 cs = [10, 10])"
  proof
    assume a: "c = 10 \<and> take 2 cs = [10, 10]"
    then have "cs = [10, 10] @ drop 2 cs"
      by (metis append_take_drop_id)
    then have "prefix [10, 10, 10] (c # cs)"
      using a by (metis Cons_prefix_Cons append_Cons append_Nil prefixI)
    then show False
      using Cons.prems by (simp add: sublist_Cons_right)
  qed
  show ?case
    by (subst collapseNewlines_Cons) (simp only: if_not_P[OF n] ih)
qed

subsection \<open>Flattening twice\<close>

lemma pipe_append: "pipe x (fs @ gs) = pipe (pipe x fs) gs"
  by (simp add: pipe_def)

lemma pipe_id: "(\<And>f. f \<in> set fs \<Longrightarrow> f s = s) \<Longrightarrow> pipe s fs = s"
proof (induction fs)
  case Nil
  then show ?case by (simp add: pipe_def)
next
  case (Cons g fs)
  have "g s = s"
    using Cons.prems by simp
  moreover have "pipe s fs = s"
    using Cons by simp
  ultimately show ?case
    by (simp add: pipe_def)
qed

lemma replace_g_id:
  "(\<And>c t. c \<in> set s \<Longrightarrow> re (c # t) = None) \<Longrightarrow> replace_g re f s = s"
  by (induction s) simp_all

lemma replace_without:
  assumes "a \<notin> set s" and "\<And>c t. c \<noteq> a \<Longrightarrow> re (c # t) = None"
  shows "replace_g re f s = s"
  by (rule replace_g_id) (metis assms)

lemma no_lt:
  "c \<noteq> 60 \<Longrightarrow> re_block n (c # t) = None"
  "c \<noteq> 60 \<Longrightarrow> re_openTag n (c # t) = None"
  "c \<noteq> 60 \<Longrightarrow> re_closeTag n (c # t) = None"
  "c \<noteq> 60 \<Longrightarrow> re_hOpen (c # t) = None"
  "c \<noteq> 60 \<Longrightarrow> re_hClose (c # t) = None"
  "c \<noteq> 60 \<Longrightarrow> re_br (c # t) = None"
  "c \<noteq> 60 \<Longrightarrow> re_pageBreakDiv (c # t) = None"
  "c \<noteq> 60 \<Longrightarrow> re_anyTag (c # t) = None"
  by (auto simp: re_block_def re_openTag_def re_closeTag_def re_hOpen_def re_hClose_def
        re_br_def re_pageBreakDiv_def re_anyTag_def canon_def)

lemma no_amp: "c \<noteq> 38 \<Longrightarrow> re_literal (38 # q) (c # t) = None"
  by (simp add: re_literal_def)

lemma markupSteps_id:
  assumes "60 \<notin> set s" and "f \<in> set markupSteps"
  shows "f s = s"
  using assms(2) unfolding markupSteps_def replace_with_def
  by (auto intro!: replace_without[OF assms(1)] no_lt)

lemma fallbackMarkupSteps_id:
  assumes "60 \<notin> set s" and "f \<in> set fallbackMarkupSteps"
  shows "f s = s"
  using assms(2) unfolding fallbackMarkupSteps_def replace_with_def
  by (auto intro!: replace_without[OF assms(1)] no_lt)

lemma entitySteps_id:
  assumes "38 \<notin> set s" and "f \<in> set entitySteps"
  shows "f s = s"
  using assms(2) unfolding entitySteps_def replace_with_def
  by (auto intro!: replace_without[OF assms(1)] no_amp)

lemma ellipsis_id:
  assumes "38 \<notin> set s"
  shows "replace_with (re_literal (js ''&#8230;'')) [8230] s = s"
  unfolding replace_with_def
  by (auto intro!: replace_without[OF assms(1)] no_amp)

lemma pipe_whitespace:
  "pipe u whitespaceSteps
     = trim (collapseNewlines (stripBeforeNewline (stripAfterNewline (collapseBlanks u))))"
  by (simp add: pipe_def whitespaceSteps_def)

lemma whitespace_fixed:
  "pipe (pipe u whitespaceSteps) whitespaceSteps = pipe u whitespaceSteps"
proof -
  define a where "a = collapseBlanks u"
  define b where "b = stripAfterNewline a"
  define c where "c = stripBeforeNewline b"
  define d where "d = collapseNewlines c"
  define y where "y = trim d"
  have y: "pipe u whitespaceSteps = y"
    by (simp add: pipe_whitespace a_def b_def c_def d_def y_def)
  have tab: "9 \<notin> set y"
  proof -
    have "9 \<notin> set a"
      using collapseBlanks_set[of u] by (auto simp: a_def)
    then have "9 \<notin> set b"
      using stripAfterNewline_set[of a] by (auto simp: b_def)
    then have "9 \<notin> set c"
      using stripBeforeNewline_set[of b] by (auto simp: c_def)
    then have "9 \<notin> set d"
      using collapseNewlines_set[of c] by (auto simp: d_def)
    then show ?thesis
      using trim_set[of d] by (auto simp: y_def)
  qed
  have p1: "successively noBlankPair y"
    unfolding y_def d_def c_def b_def a_def
    by (intro trim_pres collapseNewlines_pres stripBeforeNewline_pres stripAfterNewline_pres
          collapseBlanks_pairs) (simp_all add: noBlankPair_def isBlank_def)
  have p2: "successively noNlBlank y"
    unfolding y_def d_def c_def b_def
    by (intro trim_pres collapseNewlines_pres stripBeforeNewline_pres stripAfterNewline_pairs)
       (simp_all add: noNlBlank_def isBlank_def)
  have p3: "successively noBlankNl y"
    unfolding y_def d_def c_def
    by (intro trim_pres collapseNewlines_pres stripBeforeNewline_pairs)
       (simp_all add: noBlankNl_def isBlank_def)
  have p4: "\<not> sublist [10, 10, 10] y"
    using collapseNewlines_triple[of c] trim_sublist[of d]
    unfolding y_def d_def by (meson sublist_order.order.trans)
  have p5: "trim y = y"
    unfolding y_def by (rule trim_idem)
  have "pipe y whitespaceSteps = y"
    by (simp add: pipe_whitespace collapseBlanks_id[OF tab p1] stripAfterNewline_id[OF p2]
          stripBeforeNewline_id[OF p1 p3] collapseNewlines_id[OF p4] p5)
  then show ?thesis
    by (simp add: y)
qed

lemma chain_fixed:
  assumes y: "y = pipe x (ms @ whitespaceSteps)"
    and ms: "\<And>f. f \<in> set ms \<Longrightarrow> f y = y"
  shows "pipe y (ms @ whitespaceSteps) = y"
proof -
  have "pipe y ms = y"
    using ms by (rule pipe_id)
  then have "pipe y (ms @ whitespaceSteps) = pipe y whitespaceSteps"
    by (simp add: pipe_append)
  also have "\<dots> = y"
    unfolding y pipe_append by (rule whitespace_fixed)
  finally show ?thesis .
qed

text \<open>
  C4, as the code has it. Flattening is idempotent on every input whose text has no \<open><\<close>
  and no \<open>&\<close> left: then the second application finds no tag and no entity, and the
  whitespace steps leave their own result as it is. This holds for \<open>htmlToText\<close> of the
  service and for the chain of the spine loop of the async parser.
\<close>

theorem htmlToText_idempotent_on_plain_text:
  "(ch CHR ''<'' \<notin> set (htmlToText x) \<and> ch CHR ''&'' \<notin> set (htmlToText x)
      \<longrightarrow> htmlToText (htmlToText x) = htmlToText x)
   \<and> (ch CHR ''<'' \<notin> set (spineText x) \<and> ch CHR ''&'' \<notin> set (spineText x)
      \<longrightarrow> spineText (spineText x) = spineText x)"
proof (intro conjI impI)
  assume a: "ch CHR ''<'' \<notin> set (htmlToText x) \<and> ch CHR ''&'' \<notin> set (htmlToText x)"
  have "pipe (htmlToText x) ((markupSteps @ entitySteps) @ whitespaceSteps) = htmlToText x"
  proof (rule chain_fixed)
    show "htmlToText x = pipe x ((markupSteps @ entitySteps) @ whitespaceSteps)"
      by (simp add: htmlToText_def)
    show "f (htmlToText x) = htmlToText x" if "f \<in> set (markupSteps @ entitySteps)" for f
      using that a markupSteps_id[of "htmlToText x" f] entitySteps_id[of "htmlToText x" f]
      by auto
  qed
  then show "htmlToText (htmlToText x) = htmlToText x"
    by (simp add: htmlToText_def)
next
  assume a: "ch CHR ''<'' \<notin> set (spineText x) \<and> ch CHR ''&'' \<notin> set (spineText x)"
  let ?ms = "markupSteps @ entitySteps @ [replace_with (re_literal (js ''&#8230;'')) [8230]]"
  have "pipe (spineText x) (?ms @ whitespaceSteps) = spineText x"
  proof (rule chain_fixed)
    show "spineText x = pipe x (?ms @ whitespaceSteps)"
      by (simp add: spineText_def)
    show "f (spineText x) = spineText x" if "f \<in> set ?ms" for f
      using that a markupSteps_id[of "spineText x" f] entitySteps_id[of "spineText x" f]
        ellipsis_id[of "spineText x"]
      by auto
  qed
  then show "spineText (spineText x) = spineText x"
    by (simp add: spineText_def)
qed

text \<open>The claim as written fails: the text of \<^verbatim>\<open>&lt;b&gt;\<close> is \<^verbatim>\<open><b>\<close>, which a second
  application takes for a tag and removes.\<close>

theorem htmlToText_not_idempotent:
  "htmlToText (js ''&lt;b&gt;'') = js ''<b>''
   \<and> htmlToText (htmlToText (js ''&lt;b&gt;'')) = []
   \<and> htmlToText (htmlToText (js ''&lt;b&gt;'')) \<noteq> htmlToText (js ''&lt;b&gt;'')"
proof -
  have a: "htmlToText (js ''&lt;b&gt;'') = js ''<b>''"
    by (simp add: text_eval re_eval)
  have b: "htmlToText (js ''<b>'') = []"
    by (simp add: text_eval re_eval)
  show ?thesis
    by (simp add: a[simplified] b[simplified])
qed

theorem htmlToText_idempotent_witness:
  "ch CHR ''<'' \<notin> set (htmlToText (js ''<p>Hello  <b>world</b></p>''))
   \<and> ch CHR ''&'' \<notin> set (htmlToText (js ''<p>Hello  <b>world</b></p>''))
   \<and> htmlToText (js ''<p>Hello  <b>world</b></p>'') = js ''Hello world''
   \<and> htmlToText (htmlToText (js ''<p>Hello  <b>world</b></p>''))
     = htmlToText (js ''<p>Hello  <b>world</b></p>'')
   \<and> ch CHR ''<'' \<notin> set (spineText (js ''<p>Hello  <b>world</b></p>''))
   \<and> ch CHR ''&'' \<notin> set (spineText (js ''<p>Hello  <b>world</b></p>''))
   \<and> spineText (js ''<p>Hello  <b>world</b></p>'') = js ''Hello world''
   \<and> spineText (spineText (js ''<p>Hello  <b>world</b></p>''))
     = spineText (js ''<p>Hello  <b>world</b></p>'')"
proof -
  have v: "htmlToText (js ''<p>Hello  <b>world</b></p>'') = js ''Hello world''"
    by (simp add: text_eval re_eval)
  have h: "ch CHR ''<'' \<notin> set (htmlToText (js ''<p>Hello  <b>world</b></p>''))
      \<and> ch CHR ''&'' \<notin> set (htmlToText (js ''<p>Hello  <b>world</b></p>''))"
    by (simp add: v[simplified])
  have v': "spineText (js ''<p>Hello  <b>world</b></p>'') = js ''Hello world''"
    by (simp add: chain_eval re_eval)
  have h': "ch CHR ''<'' \<notin> set (spineText (js ''<p>Hello  <b>world</b></p>''))
      \<and> ch CHR ''&'' \<notin> set (spineText (js ''<p>Hello  <b>world</b></p>''))"
    by (simp add: v'[simplified])
  show ?thesis
    using h v h' v' htmlToText_idempotent_on_plain_text[of "js ''<p>Hello  <b>world</b></p>''"]
    by blast
qed

subsection \<open>Truncation\<close>














subsection \<open>No readable content\<close>












end
